theory Spec2Isabelle
  imports Complex_Main "HOL-Library.Multiset" "HOL-Library.List_Lexorder"
begin

section \<open>JavaScript values\<close>

text \<open>
  A JavaScript string is a sequence of UTF-16 code units; the regular expressions of the
  source (none has the \<open>u\<close> flag) and \<open>slice\<close> work on code units. A code unit is
  modelled as a natural number, so that the bullet U+2022 and the Unicode white space
  of \<open>\s\<close> and \<open>trim\<close> are single elements.
\<close>

type_synonym jsstring = "nat list"

definition js :: "string \<Rightarrow> jsstring" where
  "js s = map of_char s"

text \<open>
  A value decoded from JSON text. Numbers are rationals: every finite double is one. The
  arithmetic done on a decoded number here is the comparison with 9, and the order key
  of the catalog loader, which rounds as doubles do (\<open>toDouble\<close> below). An object
  is its list of members, one for a key (of two members with the same key
  \<open>JSON.parse\<close> keeps the last); \<open>jget\<close> reads a member, \<open>None\<close> being
  \<open>undefined\<close>.
\<close>

datatype json =
    JNull
  | JBool bool
  | JNum rat
  | JStr jsstring
  | JArr "json list"
  | JObj "(jsstring \<times> json) list"

datatype error = TypeError | MissingKey | ApiError | ParseError

fun truthy :: "json \<Rightarrow> bool" where
  "truthy JNull = False"
| "truthy (JBool b) = b"
| "truthy (JNum n) = (n \<noteq> 0)"
| "truthy (JStr s) = (s \<noteq> [])"
| "truthy (JArr _) = True"
| "truthy (JObj _) = True"

text \<open>Truthiness of a property that holds a string or is missing.\<close>

fun truthyStr :: "jsstring option \<Rightarrow> bool" where
  "truthyStr None = False"
| "truthyStr (Some s) = (s \<noteq> [])"

text \<open>
  Reading a property of a decoded value. Of the values read here a property is
  \<open>undefined\<close> unless the value is an object with that member; reading a property of
  \<open>null\<close> throws, which the callers below check first.
\<close>

fun jget :: "json \<Rightarrow> jsstring \<Rightarrow> json option" where
  "jget (JObj members) k = map_of members k"
| "jget _ k = None"

text \<open>\<open>x || d\<close> for a property of a decoded value.\<close>

definition orJson :: "json option \<Rightarrow> json \<Rightarrow> json" where
  "orJson x d = (case x of None \<Rightarrow> d | Some v \<Rightarrow> if truthy v then v else d)"

section \<open>JavaScript numbers\<close>

text \<open>
  A Number is a double: \<open>Fin r\<close> is the finite double of value \<open>r\<close> (the sign of a
  zero is not kept; nothing here divides). \<open>toDouble\<close> rounds a rational to the nearest
  double, ties to the even significand: 53 bits above the exponent of the value, the
  exponent being at least -1022 (below it the doubles are denormal, with a fixed step),
  and an infinity from \<open>2^1024\<close> on.
\<close>

datatype jsnum = Fin rat | PosInf | NegInf | NaN

function bitLength :: "int \<Rightarrow> nat" where
  "bitLength n = (if n \<le> 0 then 0 else Suc (bitLength (n div 2)))"
  by pat_completeness auto
termination
  by (relation "measure nat") auto

declare bitLength.simps [simp del]

definition pow2 :: "int \<Rightarrow> rat" where
  "pow2 k = (if 0 \<le> k then 2 ^ nat k else 1 / 2 ^ nat (- k))"

text \<open>The exponent of a positive rational \<open>a\<close>: the \<open>e\<close> with \<open>2^e \<le> a < 2^(e+1)\<close>.\<close>

definition exponentOf :: "rat \<Rightarrow> int" where
  "exponentOf a =
     (case quotient_of a of
        (p, q) \<Rightarrow>
          (let k = int (bitLength p) - int (bitLength q)
           in if pow2 k \<le> a then k else k - 1))"

definition roundHalfEven :: "rat \<Rightarrow> int" where
  "roundHalfEven y =
     (let f = \<lfloor>y\<rfloor>; d = y - of_int f
      in if d < 1 / 2 then f else if 1 / 2 < d then f + 1 else if even f then f else f + 1)"

definition toDouble :: "rat \<Rightarrow> jsnum" where
  "toDouble x =
     (if x = 0 then Fin 0
      else
        (let a = \<bar>x\<bar>;
             e = max (exponentOf a) (- 1022);
             q = pow2 (e - 52);
             r = of_int (roundHalfEven (a / q)) * q
         in if pow2 1024 \<le> r then (if 0 < x then PosInf else NegInf)
            else Fin (if 0 < x then r else - r)))"

text \<open>Negation, addition, subtraction and multiplication of Numbers.\<close>

fun jsNeg :: "jsnum \<Rightarrow> jsnum" where
  "jsNeg (Fin a) = Fin (- a)"
| "jsNeg PosInf = NegInf"
| "jsNeg NegInf = PosInf"
| "jsNeg NaN = NaN"

fun jsAdd :: "jsnum \<Rightarrow> jsnum \<Rightarrow> jsnum" where
  "jsAdd (Fin a) (Fin b) = toDouble (a + b)"
| "jsAdd NaN y = NaN"
| "jsAdd x NaN = NaN"
| "jsAdd PosInf NegInf = NaN"
| "jsAdd NegInf PosInf = NaN"
| "jsAdd PosInf y = PosInf"
| "jsAdd x PosInf = PosInf"
| "jsAdd NegInf y = NegInf"
| "jsAdd x NegInf = NegInf"

definition jsSub :: "jsnum \<Rightarrow> jsnum \<Rightarrow> jsnum" where
  "jsSub a b = jsAdd a (jsNeg b)"

definition infTimes :: "bool \<Rightarrow> rat \<Rightarrow> jsnum" where
  "infTimes positive b =
     (if b = 0 then NaN else if (0 < b) = positive then PosInf else NegInf)"

fun jsMul :: "jsnum \<Rightarrow> jsnum \<Rightarrow> jsnum" where
  "jsMul (Fin a) (Fin b) = toDouble (a * b)"
| "jsMul NaN y = NaN"
| "jsMul x NaN = NaN"
| "jsMul PosInf (Fin b) = infTimes True b"
| "jsMul NegInf (Fin b) = infTimes False b"
| "jsMul (Fin a) PosInf = infTimes True a"
| "jsMul (Fin a) NegInf = infTimes False a"
| "jsMul PosInf PosInf = PosInf"
| "jsMul NegInf NegInf = PosInf"
| "jsMul PosInf NegInf = NegInf"
| "jsMul NegInf PosInf = NegInf"

section \<open>Data model\<close>

text \<open>
  The \<open>order\<close> that \<open>flattenTopics\<close> computes: a Number, or a string when
  \<open>topic.order\<close> is one (the last \<open>+\<close> of the expression then concatenates).
\<close>

datatype ordval = OrdNum jsnum | OrdStr jsstring

text \<open>
  A topic candidate, as \<open>flattenTopics\<close> builds it from a catalog whose fields have
  the types of the catalog's schema. \<open>id\<close> and \<open>title\<close> are both
  \<open>topic.topic\<close>, which the catalog may omit; \<open>level\<close> is a string, since
  \<open>flattenTopics\<close> has called \<open>match\<close> on it.
\<close>

record candidate =
  c_id :: "jsstring option"
  c_title :: "jsstring option"
  c_level :: jsstring
  c_category :: "jsstring option"
  c_difficulty :: "int option"
  c_related :: "jsstring list"
  c_order :: ordval

record meta =
  m_id :: "jsstring option"
  m_category :: "jsstring option"
  m_difficulty :: "int option"
  m_level :: "jsstring option"
  m_related :: "jsstring list"
  m_tags :: "jsstring list"

record practice =
  p_title :: json
  p_steps :: "json list"

record source =
  s_title :: json
  s_url :: "json option"

text \<open>
  The \<open>date\<close> of a history entry: a string, as the schema of the history file has
  it, or \<open>null\<close>, or missing; the code guards the last two
  (\<open>entry?.date?.slice\<close>, \<open>a.date || ""\<close>), and \<open>new Date\<close> tells them apart.
\<close>

datatype datefield = NoDate | NullDate | DateStr jsstring

text \<open>
  A history entry. An entry read back from the history file may lack \<open>date\<close> or
  \<open>meta\<close>, and its \<open>meta\<close> may lack \<open>id\<close>; the code guards each of these reads.
\<close>

record entry =
  e_id :: jsstring
  e_date :: datefield
  e_topic :: "json option"
  e_summary :: json
  e_key_points :: json
  e_practice :: "practice list"
  e_risk_notes :: json
  e_sources :: "source list"
  e_meta :: "meta option"

section \<open>Candidate selector\<close>

text \<open>
  \<open>summarizeHistory\<close>: a \<open>Map\<close> filled by \<open>forEach\<close> from the first entry of the
  history to the last, \<open>map.set\<close> overwriting the value of a key already present.
  The value is \<open>entry.date\<close>, which may be \<open>undefined\<close> or \<open>null\<close>.
\<close>

definition setEntry :: "(jsstring \<rightharpoonup> datefield) \<Rightarrow> entry \<Rightarrow> (jsstring \<rightharpoonup> datefield)" where
  "setEntry m entry =
     (case e_meta entry of
        None \<Rightarrow> m
      | Some mt \<Rightarrow>
          (case m_id mt of
             None \<Rightarrow> m
           | Some i \<Rightarrow> if i = [] then m else m(i \<mapsto> e_date entry)))"

definition summarizeHistory :: "entry list \<Rightarrow> (jsstring \<rightharpoonup> datefield)" where
  "summarizeHistory history = foldl setEntry Map.empty history"

text \<open>\<open>summary.has(candidate.id)\<close>; no falsy key is ever set, so \<open>undefined\<close> is absent.\<close>

definition has :: "(jsstring \<rightharpoonup> datefield) \<Rightarrow> candidate \<Rightarrow> bool" where
  "has summary c = (case c_id c of None \<Rightarrow> False | Some i \<Rightarrow> summary i \<noteq> None)"

text \<open>
  \<open>new Date(summary.get(c.id))\<close> as a number of milliseconds; \<open>None\<close> is the
  \<open>NaN\<close> of an invalid date. \<open>new Date(undefined)\<close> is invalid and
  \<open>new Date(null)\<close> is the epoch. The parser of date strings belongs to the platform
  and is the parameter \<open>dateParse\<close>.
\<close>

definition newDate :: "(jsstring \<Rightarrow> int option) \<Rightarrow> datefield \<Rightarrow> int option" where
  "newDate dateParse d =
     (case d of NoDate \<Rightarrow> None | NullDate \<Rightarrow> Some 0 | DateStr s \<Rightarrow> dateParse s)"

definition lastUsed :: "(jsstring \<Rightarrow> int option) \<Rightarrow> (jsstring \<rightharpoonup> datefield) \<Rightarrow> candidate \<Rightarrow> int option" where
  "lastUsed dateParse summary c =
     (case c_id c of
        None \<Rightarrow> None
      | Some i \<Rightarrow>
          (case summary i of
             None \<Rightarrow> None
           | Some d \<Rightarrow> newDate dateParse d))"

text \<open>The comparator \<open>dateA - dateB\<close>; \<open>sort\<close> reads a \<open>NaN\<close> result as 0.\<close>

definition dateCmp :: "(jsstring \<Rightarrow> int option) \<Rightarrow> (jsstring \<rightharpoonup> datefield) \<Rightarrow> candidate \<Rightarrow> candidate \<Rightarrow> int" where
  "dateCmp dateParse summary a b =
     (case (lastUsed dateParse summary a, lastUsed dateParse summary b) of
        (Some x, Some y) \<Rightarrow> x - y
      | _ \<Rightarrow> 0)"

text \<open>
  \<open>Array.prototype.sort\<close> with a comparator is stable. For a consistent comparator the
  sorted array is therefore unique, and is what this stable insertion sort computes.
\<close>

fun insertBy :: "('a \<Rightarrow> 'a \<Rightarrow> int) \<Rightarrow> 'a \<Rightarrow> 'a list \<Rightarrow> 'a list" where
  "insertBy cmp x [] = [x]"
| "insertBy cmp x (y # ys) = (if cmp x y \<le> 0 then x # y # ys else y # insertBy cmp x ys)"

definition sortBy :: "('a \<Rightarrow> 'a \<Rightarrow> int) \<Rightarrow> 'a list \<Rightarrow> 'a list" where
  "sortBy cmp xs = foldr (insertBy cmp) xs []"

text \<open>
  \<open>usedCandidates.sort(...)\<close>. When every used candidate has a valid date the
  comparator is consistent. When one has none, the difference with it is \<open>NaN\<close>, the
  comparator is not consistent, and ECMAScript leaves the order to the implementation:
  it is then what the parameter \<open>engineSort\<close>, the engine's sort, makes of the array.
\<close>

definition sortUsed :: "(jsstring \<Rightarrow> int option) \<Rightarrow> (jsstring \<rightharpoonup> datefield) \<Rightarrow> ((candidate \<Rightarrow> candidate \<Rightarrow> int) \<Rightarrow> candidate list \<Rightarrow> candidate list) \<Rightarrow> candidate list \<Rightarrow> candidate list" where
  "sortUsed dateParse summary engineSort used =
     (if list_all (\<lambda>c. lastUsed dateParse summary c \<noteq> None) used
      then sortBy (dateCmp dateParse summary) used
      else engineSort (dateCmp dateParse summary) used)"

definition pickCandidate :: "(jsstring \<Rightarrow> int option) \<Rightarrow> ((candidate \<Rightarrow> candidate \<Rightarrow> int) \<Rightarrow> candidate list \<Rightarrow> candidate list) \<Rightarrow> candidate list \<Rightarrow> entry list \<Rightarrow> candidate option" where
  "pickCandidate dateParse engineSort candidates history =
     (case candidates of
        [] \<Rightarrow> None
      | c0 # _ \<Rightarrow>
          (let summary = summarizeHistory history in
           case find (\<lambda>c. \<not> has summary c) candidates of
             Some c \<Rightarrow> Some c
           | None \<Rightarrow>
               (case sortUsed dateParse summary engineSort (filter (has summary) candidates) of
                  u # _ \<Rightarrow> Some u
                | [] \<Rightarrow> Some c0)))"

text \<open>
  The \<open>meta\<close> object that \<open>coerceLesson\<close> gives the entry of a candidate, and the
  difficulty labels behind its tags.
\<close>

definition DIFFICULTY_LABELS :: "int \<Rightarrow> jsstring" where
  "DIFFICULTY_LABELS n =
     (if n = 1 then [20837, 38376]
      else if n = 2 then [22522, 30784]
      else if n = 3 then [36827, 38454]
      else if n = 4 then [39640, 32423]
      else if n = 5 then [19987, 23478]
      else [])"

definition mapDifficultyLabel :: "int option \<Rightarrow> jsstring" where
  "mapDifficultyLabel v =
     (case v of None \<Rightarrow> [] | Some n \<Rightarrow> DIFFICULTY_LABELS (max 1 (min 5 n)))"

definition lessonMeta :: "candidate \<Rightarrow> meta" where
  "lessonMeta c =
     \<lparr> m_id = c_id c,
       m_category = c_category c,
       m_difficulty = c_difficulty c,
       m_level = Some (c_level c),
       m_related = c_related c,
       m_tags = filter (\<lambda>t. t \<noteq> [])
                  [case c_category c of None \<Rightarrow> [] | Some s \<Rightarrow> s,
                   mapDifficultyLabel (c_difficulty c)] \<rparr>"

text \<open>
  Repeated selection: each run picks a candidate and \<open>main\<close> puts the new lesson, whose
  \<open>meta.id\<close> is the candidate's id, at the front of the history. \<open>lesson i\<close> is the
  rest of the entry of the \<open>i\<close>-th run (its date and content).
\<close>

fun selections :: "(jsstring \<Rightarrow> int option) \<Rightarrow> ((candidate \<Rightarrow> candidate \<Rightarrow> int) \<Rightarrow> candidate list \<Rightarrow> candidate list) \<Rightarrow> (nat \<Rightarrow> entry) \<Rightarrow> candidate list \<Rightarrow> entry list \<Rightarrow> nat \<Rightarrow> candidate list" where
  "selections dateParse engineSort lesson cs history 0 = []"
| "selections dateParse engineSort lesson cs history (Suc n) =
     (case pickCandidate dateParse engineSort cs history of
        None \<Rightarrow> []
      | Some c \<Rightarrow>
          c # selections dateParse engineSort (\<lambda>i. lesson (Suc i)) cs
                (lesson 0 \<lparr> e_meta := Some (lessonMeta c) \<rparr> # history) n)"

text \<open>The ids that a history records: those of its entries that are truthy.\<close>

definition usedIds :: "entry list \<Rightarrow> jsstring set" where
  "usedIds history =
     {i. i \<noteq> [] \<and> (\<exists>e \<in> set history. \<exists>mt. e_meta e = Some mt \<and> m_id mt = Some i)}"

text \<open>
  The most recent use of an id as the specification words it: the date of the first
  entry of the newest-first history that carries the id.
\<close>

definition mostRecentUse :: "entry list \<Rightarrow> jsstring \<Rightarrow> datefield option" where
  "mostRecentUse history i =
     map_option e_date
       (find (\<lambda>e. case e_meta e of None \<Rightarrow> False | Some mt \<Rightarrow> m_id mt = Some i) history)"

section \<open>Topic catalog loader\<close>

text \<open>
  The object that \<open>flattenTopics\<close> pushes for a topic. Its fields are what the catalog
  holds, whatever that is; \<open>level\<close> is a string, since \<open>match\<close> has been called on
  it.
\<close>

record item =
  i_id :: "json option"
  i_title :: "json option"
  i_level :: jsstring
  i_category :: "json option"
  i_difficulty :: "json option"
  i_related :: json
  i_order :: ordval

text \<open>
  What the code takes from the engine beyond the operations modelled here: the order in
  which \<open>sort\<close> leaves an array when its comparator is not consistent, which ECMAScript
  leaves to the implementation; the Number of a string that is not a run of digits; and
  the string of a Number that is not an integer below \<open>10^21\<close>.
\<close>

record engine =
  sortCandidates :: "(candidate \<Rightarrow> candidate \<Rightarrow> int) \<Rightarrow> candidate list \<Rightarrow> candidate list"
  sortItems :: "(item \<Rightarrow> item \<Rightarrow> int) \<Rightarrow> item list \<Rightarrow> item list"
  strNum :: "jsstring \<Rightarrow> jsnum"
  numStr :: "rat \<Rightarrow> jsstring"

text \<open>
  Decimal digits, the first run of them in a string (what \<open>/\d+/\<close> matches), and
  the value of a run of digits.
\<close>

definition isDigit :: "nat \<Rightarrow> bool" where
  "isDigit c = (48 \<le> c \<and> c \<le> 57)"

definition firstDigits :: "jsstring \<Rightarrow> jsstring" where
  "firstDigits s = takeWhile isDigit (dropWhile (\<lambda>c. \<not> isDigit c) s)"

definition digitsValue :: "jsstring \<Rightarrow> int" where
  "digitsValue ds = foldl (\<lambda>acc d. acc * 10 + int (d - 48)) 0 ds"

text \<open>
  \<open>ToNumber\<close> of a string: 0 for the empty string, and for a run of decimal digits
  the double nearest to its value.
\<close>

definition stringToNumber :: "engine \<Rightarrow> jsstring \<Rightarrow> jsnum" where
  "stringToNumber eng s =
     (if s = [] then Fin 0
      else if list_all isDigit s then toDouble (of_int (digitsValue s))
      else strNum eng s)"

text \<open>\<open>ToString\<close> of a Number, and of a decoded value (\<open>join\<close> for an array).\<close>

function digitsOf :: "nat \<Rightarrow> jsstring" where
  "digitsOf n = (if n < 10 then [48 + n] else digitsOf (n div 10) @ [48 + n mod 10])"
  by pat_completeness auto
termination
  by (relation "measure id") auto

declare digitsOf.simps [simp del]

definition numberToString :: "engine \<Rightarrow> jsnum \<Rightarrow> jsstring" where
  "numberToString eng x =
     (case x of
        NaN \<Rightarrow> js ''NaN''
      | PosInf \<Rightarrow> js ''Infinity''
      | NegInf \<Rightarrow> js ''-Infinity''
      | Fin r \<Rightarrow>
          if r = of_int \<lfloor>r\<rfloor> \<and> \<bar>r\<bar> < 10 ^ 21
          then (if r < 0 then 45 # digitsOf (nat (- \<lfloor>r\<rfloor>)) else digitsOf (nat \<lfloor>r\<rfloor>))
          else numStr eng r)"

fun joinComma :: "jsstring list \<Rightarrow> jsstring" where
  "joinComma [] = []"
| "joinComma [s] = s"
| "joinComma (s # t # rest) = s @ 44 # joinComma (t # rest)"

fun toStr :: "engine \<Rightarrow> json \<Rightarrow> jsstring" where
  "toStr eng (JStr s) = s"
| "toStr eng (JNum n) = numberToString eng (toDouble n)"
| "toStr eng (JBool b) = (if b then js ''true'' else js ''false'')"
| "toStr eng JNull = js ''null''"
| "toStr eng (JObj members) = js ''[object Object]''"
| "toStr eng (JArr xs) = joinComma (map (\<lambda>x. if x = JNull then [] else toStr eng x) xs)"

text \<open>\<open>ToNumber\<close> of a decoded value; an array or object goes through its string.\<close>

definition toNumber :: "engine \<Rightarrow> json \<Rightarrow> jsnum" where
  "toNumber eng v =
     (case v of
        JNum n \<Rightarrow> toDouble n
      | JBool b \<Rightarrow> Fin (if b then 1 else 0)
      | JNull \<Rightarrow> Fin 0
      | JStr s \<Rightarrow> stringToNumber eng s
      | _ \<Rightarrow> stringToNumber eng (toStr eng v))"

text \<open>
  \<open>x + v\<close> for a Number \<open>x\<close>: a concatenation when \<open>v\<close> is a string, or an array or
  object (which \<open>ToPrimitive\<close> turns into its string), an addition otherwise.
\<close>

definition jsPlus :: "engine \<Rightarrow> jsnum \<Rightarrow> json \<Rightarrow> ordval" where
  "jsPlus eng x v =
     (case v of
        JStr s \<Rightarrow> OrdStr (numberToString eng x @ s)
      | JArr xs \<Rightarrow> OrdStr (numberToString eng x @ toStr eng v)
      | JObj members \<Rightarrow> OrdStr (numberToString eng x @ toStr eng v)
      | _ \<Rightarrow> OrdNum (jsAdd x (toNumber eng v)))"

text \<open>
  \<open>(level.level.match(/\d+/) || [0])[0]\<close> as the Number that \<open>* 1000\<close> makes of it:
  the double nearest to the value of the first run of decimal digits of the level's
  name, 0 when it has no digit.
\<close>

definition levelNumber :: "jsstring \<Rightarrow> jsnum" where
  "levelNumber name =
     (case firstDigits name of
        [] \<Rightarrow> Fin 0
      | d # ds \<Rightarrow> toDouble (of_int (digitsValue (d # ds))))"

text \<open>
  \<open>for (const x of v)\<close>: the elements of an array, the code points of a string (a
  surrogate pair is one element), a \<open>TypeError\<close> for anything else.
\<close>

fun codePoints :: "jsstring \<Rightarrow> jsstring list" where
  "codePoints (h # l # rest) =
     (if 55296 \<le> h \<and> h \<le> 56319 \<and> 56320 \<le> l \<and> l \<le> 57343
      then [h, l] # codePoints rest
      else [h] # codePoints (l # rest))"
| "codePoints [c] = [[c]]"
| "codePoints [] = []"

definition iterate :: "json \<Rightarrow> error + json list" where
  "iterate v =
     (case v of
        JArr xs \<Rightarrow> Inr xs
      | JStr s \<Rightarrow> Inr (map JStr (codePoints s))
      | _ \<Rightarrow> Inl TypeError)"

text \<open>A \<open>for ... of\<close> loop that pushes items and that the first exception leaves.\<close>

fun collect :: "('a \<Rightarrow> error + 'b list) \<Rightarrow> 'a list \<Rightarrow> error + 'b list" where
  "collect f [] = Inr []"
| "collect f (x # xs) =
     (case f x of
        Inl e \<Rightarrow> Inl e
      | Inr ys \<Rightarrow> (case collect f xs of Inl e \<Rightarrow> Inl e | Inr zs \<Rightarrow> Inr (ys @ zs)))"

text \<open>
  The object pushed for one topic of a category of a level, neither of the latter two
  being \<open>null\<close>. Reading \<open>topic\<close> of a \<open>null\<close> topic throws, and so does
  \<open>level.level.match\<close> when the level's name is not a string.
\<close>

definition newItem :: "engine \<Rightarrow> json \<Rightarrow> json \<Rightarrow> json \<Rightarrow> error + item" where
  "newItem eng lv ct tp =
     (case tp of
        JNull \<Rightarrow> Inl TypeError
      | _ \<Rightarrow>
          (case jget lv (js ''level'') of
             Some (JStr name) \<Rightarrow>
               Inr \<lparr> i_id = jget tp (js ''topic''),
                     i_title = jget tp (js ''topic''),
                     i_level = name,
                     i_category = jget ct (js ''category''),
                     i_difficulty = jget ct (js ''difficulty''),
                     i_related = orJson (jget tp (js ''related_topics'')) (JArr []),
                     i_order =
                       jsPlus eng
                         (jsAdd (jsMul (levelNumber name) (Fin 1000))
                            (jsMul (toNumber eng (orJson (jget ct (js ''recommended_order'')) (JNum 0)))
                               (Fin 100)))
                         (orJson (jget tp (js ''order'')) (JNum 0)) \<rparr>
           | _ \<Rightarrow> Inl TypeError))"

text \<open>The loop over the topics of a category, after \<open>if (!cat.topics) continue\<close>.\<close>

definition categoryItems :: "engine \<Rightarrow> json \<Rightarrow> json \<Rightarrow> error + item list" where
  "categoryItems eng lv ct =
     (case ct of
        JNull \<Rightarrow> Inl TypeError
      | _ \<Rightarrow>
          (let topics = orJson (jget ct (js ''topics'')) JNull in
           if \<not> truthy topics then Inr []
           else
             (case iterate topics of
                Inl e \<Rightarrow> Inl e
              | Inr tps \<Rightarrow>
                  collect (\<lambda>tp. case newItem eng lv ct tp of Inl e \<Rightarrow> Inl e | Inr c \<Rightarrow> Inr [c]) tps)))"

text \<open>The loop over the categories of a level, after \<open>if (!level.categories) continue\<close>.\<close>

definition levelItems :: "engine \<Rightarrow> json \<Rightarrow> error + item list" where
  "levelItems eng lv =
     (case lv of
        JNull \<Rightarrow> Inl TypeError
      | _ \<Rightarrow>
          (let categories = orJson (jget lv (js ''categories'')) JNull in
           if \<not> truthy categories then Inr []
           else
             (case iterate categories of
                Inl e \<Rightarrow> Inl e
              | Inr cats \<Rightarrow> collect (categoryItems eng lv) cats)))"

text \<open>
  \<open>items.sort((a, b) => a.order - b.order)\<close>. The subtraction converts each order to a
  Number; \<open>sort\<close> reads a \<open>NaN\<close> as 0. When every order is a finite Number the
  comparator is consistent and the stable sort is determined; otherwise the order is the
  engine's.
\<close>

definition orderNumber :: "engine \<Rightarrow> item \<Rightarrow> jsnum" where
  "orderNumber eng it =
     (case i_order it of OrdNum x \<Rightarrow> x | OrdStr s \<Rightarrow> stringToNumber eng s)"

definition orderCmp :: "engine \<Rightarrow> item \<Rightarrow> item \<Rightarrow> int" where
  "orderCmp eng a b =
     (case jsSub (orderNumber eng a) (orderNumber eng b) of
        Fin d \<Rightarrow> (if d < 0 then - 1 else if d = 0 then 0 else 1)
      | PosInf \<Rightarrow> 1
      | NegInf \<Rightarrow> - 1
      | NaN \<Rightarrow> 0)"

definition isFin :: "jsnum \<Rightarrow> bool" where
  "isFin x = (case x of Fin r \<Rightarrow> True | _ \<Rightarrow> False)"

definition sortByOrder :: "engine \<Rightarrow> item list \<Rightarrow> item list" where
  "sortByOrder eng items =
     (if list_all (\<lambda>it. isFin (orderNumber eng it)) items
      then sortBy (orderCmp eng) items
      else sortItems eng (orderCmp eng) items)"

definition flattenTopics :: "engine \<Rightarrow> json \<Rightarrow> error + item list" where
  "flattenTopics eng levels =
     (case iterate levels of
        Inl e \<Rightarrow> Inl e
      | Inr lvs \<Rightarrow>
          (case collect (levelItems eng) lvs of
             Inl e \<Rightarrow> Inl e
           | Inr items \<Rightarrow> Inr (sortByOrder eng items)))"


text \<open>
  The specification's words: the order key, with a missing numeric field counting as 0
  and the level number read off the level's name; and the items in the order of the
  nested traversal, each with that key.
\<close>

definition orderKey :: "int \<Rightarrow> int \<Rightarrow> int \<Rightarrow> int" where
  "orderKey level_number category_recommended_order topic_order =
     level_number * 1000 + category_recommended_order * 100 + topic_order"

definition numberOr0 :: "json option \<Rightarrow> int" where
  "numberOr0 x = (case x of Some (JNum n) \<Rightarrow> \<lfloor>n\<rfloor> | _ \<Rightarrow> 0)"

definition entriesOf :: "json option \<Rightarrow> json list" where
  "entriesOf x = (case x of Some (JArr xs) \<Rightarrow> xs | _ \<Rightarrow> [])"

definition levelName :: "json \<Rightarrow> jsstring" where
  "levelName lv = (case jget lv (js ''level'') of Some (JStr name) \<Rightarrow> name | _ \<Rightarrow> [])"

definition level_number :: "json \<Rightarrow> int" where
  "level_number lv = digitsValue (firstDigits (levelName lv))"

definition itemOf :: "json \<Rightarrow> json \<Rightarrow> json \<Rightarrow> item" where
  "itemOf lv ct tp =
     \<lparr> i_id = jget tp (js ''topic''),
       i_title = jget tp (js ''topic''),
       i_level = levelName lv,
       i_category = jget ct (js ''category''),
       i_difficulty = jget ct (js ''difficulty''),
       i_related = orJson (jget tp (js ''related_topics'')) (JArr []),
       i_order = OrdNum (Fin (of_int
                   (orderKey (level_number lv)
                      (numberOr0 (jget ct (js ''recommended_order'')))
                      (numberOr0 (jget tp (js ''order'')))))) \<rparr>"

definition levelTraversal :: "json \<Rightarrow> item list" where
  "levelTraversal lv =
     concat (map (\<lambda>ct. map (itemOf lv ct) (entriesOf (jget ct (js ''topics''))))
               (entriesOf (jget lv (js ''categories''))))"

definition traversal :: "json \<Rightarrow> item list" where
  "traversal catalog = (case catalog of JArr lvs \<Rightarrow> concat (map levelTraversal lvs) | _ \<Rightarrow> [])"

definition itemKey :: "item \<Rightarrow> int" where
  "itemKey it = (case i_order it of OrdNum (Fin r) \<Rightarrow> \<lfloor>r\<rfloor> | _ \<Rightarrow> 0)"

text \<open>
  The catalogs of the nested shape: an array of levels, none of them \<open>null\<close>; the
  \<open>categories\<close> of a level and the \<open>topics\<close> of a category missing, falsy or an
  array without a \<open>null\<close>; \<open>recommended_order\<close> and \<open>order\<close> missing, falsy or an
  integer of magnitude at most \<open>10^12\<close>; and the name of a level that has a topic a
  string, with a level number of at most \<open>10^12\<close>. The bounds keep the arithmetic of
  doubles exact.
\<close>

definition numberField :: "json option \<Rightarrow> bool" where
  "numberField x =
     (case x of
        None \<Rightarrow> True
      | Some (JNum n) \<Rightarrow> n = of_int \<lfloor>n\<rfloor> \<and> \<bar>\<lfloor>n\<rfloor>\<bar> \<le> 10 ^ 12
      | Some v \<Rightarrow> \<not> truthy v)"

definition listField :: "json option \<Rightarrow> bool" where
  "listField x =
     (case x of
        None \<Rightarrow> True
      | Some (JArr xs) \<Rightarrow> list_all (\<lambda>v. v \<noteq> JNull) xs
      | Some v \<Rightarrow> \<not> truthy v)"

definition wellTopic :: "json \<Rightarrow> bool" where
  "wellTopic tp = numberField (jget tp (js ''order''))"

definition wellCategory :: "json \<Rightarrow> bool" where
  "wellCategory ct =
     (listField (jget ct (js ''topics'')) \<and>
      numberField (jget ct (js ''recommended_order'')) \<and>
      list_all wellTopic (entriesOf (jget ct (js ''topics''))))"

definition named :: "json \<Rightarrow> bool" where
  "named lv =
     (case jget lv (js ''level'') of
        Some (JStr name) \<Rightarrow> digitsValue (firstDigits name) \<le> 10 ^ 12
      | _ \<Rightarrow> False)"

definition wellLevel :: "json \<Rightarrow> bool" where
  "wellLevel lv =
     (listField (jget lv (js ''categories'')) \<and>
      list_all wellCategory (entriesOf (jget lv (js ''categories''))) \<and>
      (levelTraversal lv = [] \<or> named lv))"

definition wellFormed :: "json \<Rightarrow> bool" where
  "wellFormed catalog =
     (case catalog of
        JArr lvs \<Rightarrow> list_all (\<lambda>lv. lv \<noteq> JNull \<and> wellLevel lv) lvs
      | _ \<Rightarrow> False)"

text \<open>
  The catalog file of a run of the generator: levels, their categories, their topics,
  the fields having the types of the catalog's schema and each of them possibly
  missing. \<open>catalogJson\<close> is the value that \<open>readJSON\<close> decodes from such a file,
  and \<open>loadCatalog\<close> is \<open>flattenTopics\<close> on it.
\<close>

record topic =
  tp_topic :: "jsstring option"
  tp_order :: "int option"
  tp_related_topics :: "jsstring list option"

record category =
  ct_category :: "jsstring option"
  ct_difficulty :: "int option"
  ct_recommended_order :: "int option"
  ct_topics :: "topic list option"

record level =
  lv_level :: "jsstring option"
  lv_categories :: "category list option"

definition member :: "string \<Rightarrow> ('a \<Rightarrow> json) \<Rightarrow> 'a option \<Rightarrow> (jsstring \<times> json) list" where
  "member k f x = (case x of None \<Rightarrow> [] | Some v \<Rightarrow> [(js k, f v)])"

definition jint :: "int \<Rightarrow> json" where
  "jint n = JNum (of_int n)"

definition topicJson :: "topic \<Rightarrow> json" where
  "topicJson tp =
     JObj (member ''topic'' JStr (tp_topic tp) @
           member ''order'' jint (tp_order tp) @
           member ''related_topics'' (\<lambda>xs. JArr (map JStr xs)) (tp_related_topics tp))"

definition categoryJson :: "category \<Rightarrow> json" where
  "categoryJson ct =
     JObj (member ''category'' JStr (ct_category ct) @
           member ''difficulty'' jint (ct_difficulty ct) @
           member ''recommended_order'' jint (ct_recommended_order ct) @
           member ''topics'' (\<lambda>ts. JArr (map topicJson ts)) (ct_topics ct))"

definition levelJson :: "level \<Rightarrow> json" where
  "levelJson lv =
     JObj (member ''level'' JStr (lv_level lv) @
           member ''categories'' (\<lambda>cs. JArr (map categoryJson cs)) (lv_categories lv))"

definition catalogJson :: "level list \<Rightarrow> json" where
  "catalogJson levels = JArr (map levelJson levels)"

definition stringOf :: "json option \<Rightarrow> jsstring option" where
  "stringOf x = (case x of Some (JStr s) \<Rightarrow> Some s | _ \<Rightarrow> None)"

definition intOf :: "json option \<Rightarrow> int option" where
  "intOf x = (case x of Some (JNum n) \<Rightarrow> Some \<lfloor>n\<rfloor> | _ \<Rightarrow> None)"

definition stringsOf :: "json \<Rightarrow> jsstring list" where
  "stringsOf v =
     (case v of
        JArr xs \<Rightarrow> concat (map (\<lambda>x. case x of JStr s \<Rightarrow> [s] | _ \<Rightarrow> []) xs)
      | _ \<Rightarrow> [])"

definition candidateOfItem :: "item \<Rightarrow> candidate" where
  "candidateOfItem it =
     \<lparr> c_id = stringOf (i_id it),
       c_title = stringOf (i_title it),
       c_level = i_level it,
       c_category = stringOf (i_category it),
       c_difficulty = intOf (i_difficulty it),
       c_related = stringsOf (i_related it),
       c_order = i_order it \<rparr>"

definition loadCatalog :: "engine \<Rightarrow> level list \<Rightarrow> error + candidate list" where
  "loadCatalog eng levels =
     (case flattenTopics eng (catalogJson levels) of
        Inl e \<Rightarrow> Inl e
      | Inr items \<Rightarrow> Inr (map candidateOfItem items))"

section \<open>Coercion of a lesson\<close>

text \<open>The white space of \<open>\s\<close> and of \<open>trim\<close>, as code units.\<close>

definition isSpace :: "nat \<Rightarrow> bool" where
  "isSpace c =
     (c \<in> {9, 10, 11, 12, 13, 32, 160, 5760, 8232, 8233, 8239, 8287, 12288, 65279}
      \<or> (8192 \<le> c \<and> c \<le> 8202))"

definition trim :: "jsstring \<Rightarrow> jsstring" where
  "trim s = rev (dropWhile isSpace (rev (dropWhile isSpace s)))"

text \<open>
  \<open>split(/\r?\n+/)\<close>. \<open>matchSep\<close> is a match of the separator at the head of the
  text, giving what follows the match: a line feed, or a carriage return and a line
  feed, and then every further line feed. \<open>splitLines\<close> scans for the next match and
  closes the current piece there; the last piece ends with the text.
\<close>

definition matchSep :: "jsstring \<Rightarrow> jsstring option" where
  "matchSep s =
     (case s of
        [] \<Rightarrow> None
      | c # cs \<Rightarrow>
          if c = 10 then Some (dropWhile (\<lambda>x. x = 10) cs)
          else if c = 13 then
            (case cs of
               [] \<Rightarrow> None
             | d # ds \<Rightarrow> if d = 10 then Some (dropWhile (\<lambda>x. x = 10) ds) else None)
          else None)"

function splitLines :: "jsstring \<Rightarrow> jsstring \<Rightarrow> jsstring list" where
  "splitLines cur [] = [cur]"
| "splitLines cur (c # cs) =
     (case matchSep (c # cs) of
        Some rest \<Rightarrow> cur # splitLines [] rest
      | None \<Rightarrow> splitLines (cur @ [c]) cs)"
  by pat_completeness auto
termination
proof (relation "measure (\<lambda>(cur, s). length s)")
  fix cur :: jsstring and c cs rest
  assume "matchSep (c # cs) = Some rest"
  then have "length rest \<le> length cs"
    by (auto simp: matchSep_def length_dropWhile_le le_SucI split: if_splits list.splits)
  then show "((([]::jsstring), rest), (cur, c # cs)) \<in> measure (\<lambda>(cur, s). length s)"
    by simp
qed simp_all

text \<open>
  \<open>replace(/^\s*(?:\d+\.|[-*\u2022])\s*/, "")\<close>: leading white space, then digits and a
  full stop, or one of hyphen, asterisk and bullet, then white space. Where the marker
  is missing the pattern does not match and the line stays as it is.
\<close>

definition markerEnd :: "jsstring \<Rightarrow> jsstring option" where
  "markerEnd s =
     (case s of
        [] \<Rightarrow> None
      | c # cs \<Rightarrow>
          if isDigit c then
            (case dropWhile isDigit cs of
               [] \<Rightarrow> None
             | d # ds \<Rightarrow> if d = 46 then Some ds else None)
          else if c = 45 \<or> c = 42 \<or> c = 8226 then Some cs
          else None)"

definition stripMarker :: "jsstring \<Rightarrow> jsstring" where
  "stripMarker line =
     (case markerEnd (dropWhile isSpace line) of
        None \<Rightarrow> line
      | Some rest \<Rightarrow> dropWhile isSpace rest)"

definition splitSteps :: "jsstring \<Rightarrow> jsstring list" where
  "splitSteps text =
     (if text = [] then []
      else take 6 (filter (\<lambda>line. line \<noteq> [])
             (map (\<lambda>line. trim (stripMarker line)) (splitLines [] text))))"

text \<open>\<open>map\<close> with a callback that may throw.\<close>

fun mapE :: "('a \<Rightarrow> error + 'b) \<Rightarrow> 'a list \<Rightarrow> error + 'b list" where
  "mapE f [] = Inr []"
| "mapE f (x # xs) =
     (case f x of
        Inl e \<Rightarrow> Inl e
      | Inr y \<Rightarrow> (case mapE f xs of Inl e \<Rightarrow> Inl e | Inr ys \<Rightarrow> Inr (y # ys)))"

text \<open>
  The callback of \<open>normalizePractice\<close>. \<open>item.steps || ""\<close> reaches \<open>splitSteps\<close>
  when \<open>steps\<close> is no array; a truthy value that is no string has no \<open>split\<close>.
\<close>

definition practiceSteps :: "json option \<Rightarrow> error + json list" where
  "practiceSteps steps =
     (case steps of
        None \<Rightarrow> Inr []
      | Some (JArr xs) \<Rightarrow> Inr xs
      | Some (JStr text) \<Rightarrow> Inr (map JStr (splitSteps text))
      | Some v \<Rightarrow> if truthy v then Inl TypeError else Inr [])"

definition practiceItem :: "json \<Rightarrow> error + practice" where
  "practiceItem item =
     (case item of
        JStr s \<Rightarrow> Inr \<lparr> p_title = JStr s, p_steps = [] \<rparr>
      | JNull \<Rightarrow> Inl TypeError
      | _ \<Rightarrow>
          (case practiceSteps (jget item (js ''steps'')) of
             Inl e \<Rightarrow> Inl e
           | Inr steps \<Rightarrow>
               Inr \<lparr> p_title = (case jget item (js ''title'') of
                                   None \<Rightarrow> JStr []
                                 | Some t \<Rightarrow> if truthy t then t else JStr []),
                     p_steps = steps \<rparr>))"

definition normalizePractice :: "json option \<Rightarrow> error + practice list" where
  "normalizePractice raw =
     (case raw of Some (JArr items) \<Rightarrow> mapE practiceItem items | _ \<Rightarrow> Inr [])"

definition sourceItem :: "json \<Rightarrow> error + source" where
  "sourceItem entry =
     (case entry of
        JNull \<Rightarrow> Inl TypeError
      | _ \<Rightarrow>
          Inr \<lparr> s_title = (case jget entry (js ''title'') of
                              None \<Rightarrow> JStr (js ''Source'')
                            | Some t \<Rightarrow> if truthy t then t else JStr (js ''Source'')),
                s_url = jget entry (js ''url'') \<rparr>)"

definition normalizeSources :: "json option \<Rightarrow> error + source list" where
  "normalizeSources raw =
     (case raw of
        Some (JArr entries) \<Rightarrow>
          (case mapE sourceItem entries of Inl e \<Rightarrow> Inl e | Inr out \<Rightarrow> Inr (take 6 out))
      | _ \<Rightarrow> Inr [])"

text \<open>
  The entries that the callback of \<open>normalizePractice\<close> accepts: not \<open>null\<close>, and
  with \<open>steps\<close> an array, a string, falsy or absent.
\<close>

definition coercible :: "json \<Rightarrow> bool" where
  "coercible item =
     (case item of
        JNull \<Rightarrow> False
      | JStr _ \<Rightarrow> True
      | _ \<Rightarrow>
          (case jget item (js ''steps'') of
             Some (JNum n) \<Rightarrow> n = 0
           | Some (JBool b) \<Rightarrow> \<not> b
           | Some (JObj _) \<Rightarrow> False
           | _ \<Rightarrow> True))"

text \<open>The title of a normalized source, in the specification's words.\<close>

definition titleOrSource :: "json \<Rightarrow> json" where
  "titleOrSource entry =
     (case jget entry (js ''title'') of
        None \<Rightarrow> JStr (js ''Source'')
      | Some t \<Rightarrow> if truthy t then t else JStr (js ''Source''))"

text \<open>
  \<open>coerceLesson\<close>. \<open>uuid\<close> is what \<open>crypto.randomUUID()\<close> returns. A lesson that
  is \<open>null\<close> has no \<open>sources\<close> to read.
\<close>

definition coerceLesson :: "candidate \<Rightarrow> json \<Rightarrow> jsstring \<Rightarrow> jsstring \<Rightarrow> error + entry" where
  "coerceLesson candidate lesson date uuid =
     (case lesson of
        JNull \<Rightarrow> Inl TypeError
      | _ \<Rightarrow>
          (case normalizeSources (jget lesson (js ''sources'')) of
             Inl e \<Rightarrow> Inl e
           | Inr sources \<Rightarrow>
               (case normalizePractice (jget lesson (js ''practice'')) of
                  Inl e \<Rightarrow> Inl e
                | Inr practice \<Rightarrow>
                    Inr \<lparr> e_id = uuid,
                          e_date = DateStr date,
                          e_topic = (case jget lesson (js ''topic'') of
                                       None \<Rightarrow> map_option JStr (c_title candidate)
                                     | Some v \<Rightarrow> if truthy v then Some v
                                                else map_option JStr (c_title candidate)),
                          e_summary = orJson (jget lesson (js ''summary'')) (JStr []),
                          e_key_points = orJson (jget lesson (js ''key_points'')) (JArr []),
                          e_practice = practice,
                          e_risk_notes = orJson (jget lesson (js ''risk_notes'')) (JStr []),
                          e_sources = sources,
                          e_meta = Some (lessonMeta candidate) \<rparr>)))"

section \<open>Content generation pipeline\<close>

text \<open>
  The process environment after \<open>loadDotEnv\<close>, and the key that \<open>callLLM\<close> reads:
  \<open>process.env.LLM_API_KEY || process.env.DEEPSEEK_API_KEY\<close>.
\<close>

record env =
  LLM_API_KEY :: "jsstring option"
  DEEPSEEK_API_KEY :: "jsstring option"

definition apiKey :: "env \<Rightarrow> jsstring option" where
  "apiKey e = (if truthyStr (LLM_API_KEY e) then LLM_API_KEY e else DEEPSEEK_API_KEY e)"

text \<open>
  \<open>callLLM\<close>. Without a key it throws before any request. The backend is the sequence
  of its replies, \<open>backend n\<close> being the outcome of the \<open>n\<close>-th request of the run:
  the content of the assistant's message, or the error of a failed \<open>fetch\<close> or of a
  response that is not \<open>ok\<close>. The prompt is built from the candidate and the earlier
  replies and reaches nothing but the backend, so its text is not modelled.
\<close>

definition callLLM :: "env \<Rightarrow> (nat \<Rightarrow> error + jsstring) \<Rightarrow> nat \<Rightarrow> error + jsstring" where
  "callLLM e backend n = (if \<not> truthyStr (apiKey e) then Inl MissingKey else backend n)"

text \<open>
  \<open>parseJSON\<close>. \<open>JSON.parse\<close> belongs to the platform and is the parameter
  \<open>jsonParse\<close>, \<open>None\<close> being its \<open>SyntaxError\<close>. \<open>fenceInner\<close> is the group of
  \<open>raw.match(/```json([\s\S]*?)```/)\<close>: the text after the first \<open>```json\<close> up to the
  first \<open>```\<close> that follows it.
\<close>

fun afterFirst :: "jsstring \<Rightarrow> jsstring \<Rightarrow> jsstring option" where
  "afterFirst pat [] = (if pat = [] then Some [] else None)"
| "afterFirst pat (c # cs) =
     (if take (length pat) (c # cs) = pat then Some (drop (length pat) (c # cs))
      else afterFirst pat cs)"

fun beforeFirst :: "jsstring \<Rightarrow> jsstring \<Rightarrow> jsstring option" where
  "beforeFirst pat [] = (if pat = [] then Some [] else None)"
| "beforeFirst pat (c # cs) =
     (if take (length pat) (c # cs) = pat then Some []
      else map_option (\<lambda>r. c # r) (beforeFirst pat cs))"

definition fenceInner :: "jsstring \<Rightarrow> jsstring option" where
  "fenceInner raw =
     (case afterFirst (js ''```json'') raw of
        None \<Rightarrow> None
      | Some rest \<Rightarrow> beforeFirst (js ''```'') rest)"

definition parseJSON :: "(jsstring \<Rightarrow> json option) \<Rightarrow> jsstring \<Rightarrow> error + json" where
  "parseJSON jsonParse raw =
     (case jsonParse raw of
        Some v \<Rightarrow> Inr v
      | None \<Rightarrow>
          (case fenceInner raw of
             Some inner \<Rightarrow>
               (case jsonParse inner of Some v \<Rightarrow> Inr v | None \<Rightarrow> Inl ParseError)
           | None \<Rightarrow> Inl ParseError))"

text \<open>One stage: the request, then the parse of the reply.\<close>

definition llmStage :: "(jsstring \<Rightarrow> json option) \<Rightarrow> env \<Rightarrow> (nat \<Rightarrow> error + jsstring) \<Rightarrow> nat \<Rightarrow> error + json" where
  "llmStage jsonParse e backend n =
     (case callLLM e backend n of Inl err \<Rightarrow> Inl err | Inr raw \<Rightarrow> parseJSON jsonParse raw)"

text \<open>
  \<open>critique.score < 9\<close>. Reading \<open>score\<close> of \<open>null\<close> throws; a missing score is
  \<open>undefined\<close>, and \<open>undefined < 9\<close> is false. For a score that is no number the
  comparison converts it first (\<open>ToNumber\<close>); its outcome is the parameter
  \<open>belowNine\<close>.
\<close>

definition scoreBelow9 :: "(json \<Rightarrow> bool) \<Rightarrow> json \<Rightarrow> error + bool" where
  "scoreBelow9 belowNine critique =
     (case critique of
        JNull \<Rightarrow> Inl TypeError
      | _ \<Rightarrow>
          Inr (case jget critique (js ''score'') of
                 None \<Rightarrow> False
               | Some (JNum n) \<Rightarrow> n < 9
               | Some v \<Rightarrow> belowNine v))"

datatype stage = Blueprint | Draft | Critique | Revise

text \<open>
  \<open>generateLesson\<close>, from the request numbered \<open>n\<close> on: its result and the stages it
  has invoked. A stage that throws ends it.
\<close>

record attempt =
  a_result :: "error + json"
  a_stages :: "stage list"

definition generateLesson :: "(jsstring \<Rightarrow> json option) \<Rightarrow> (json \<Rightarrow> bool) \<Rightarrow> env \<Rightarrow> (nat \<Rightarrow> error + jsstring) \<Rightarrow> nat \<Rightarrow> attempt" where
  "generateLesson jsonParse belowNine e backend n =
     (case llmStage jsonParse e backend n of
        Inl err \<Rightarrow> \<lparr> a_result = Inl err, a_stages = [Blueprint] \<rparr>
      | Inr blueprint \<Rightarrow>
     (case llmStage jsonParse e backend (n + 1) of
        Inl err \<Rightarrow> \<lparr> a_result = Inl err, a_stages = [Blueprint, Draft] \<rparr>
      | Inr draft \<Rightarrow>
     (case llmStage jsonParse e backend (n + 2) of
        Inl err \<Rightarrow> \<lparr> a_result = Inl err, a_stages = [Blueprint, Draft, Critique] \<rparr>
      | Inr critique \<Rightarrow>
     (case scoreBelow9 belowNine critique of
        Inl err \<Rightarrow> \<lparr> a_result = Inl err, a_stages = [Blueprint, Draft, Critique] \<rparr>
      | Inr False \<Rightarrow> \<lparr> a_result = Inr draft, a_stages = [Blueprint, Draft, Critique] \<rparr>
      | Inr True \<Rightarrow>
          \<lparr> a_result = llmStage jsonParse e backend (n + 3),
            a_stages = [Blueprint, Draft, Critique, Revise] \<rparr>))))"

text \<open>The requests that the stages of an attempt have sent: one each, given a key.\<close>

definition requestsOf :: "env \<Rightarrow> attempt \<Rightarrow> nat" where
  "requestsOf e a = (if truthyStr (apiKey e) then length (a_stages a) else 0)"

section \<open>History store and archive\<close>

text \<open>
  The archive directory holds one file per month, \<open>month.json\<close>, a month naming its
  own file; it is modelled as a map from the month to the array in that file
  (\<open>readJSON\<close> gives \<open>[]\<close> for a file that is absent). \<open>pickMonth\<close> is the default argument
  \<open>entry?.date?.slice(0, 7)\<close>, and the sort key is \<open>a.date || ""\<close>.
  \<open>localeCompare\<close> is a consistent comparison that the platform's collation decides;
  it is the order of the keys that the parameter \<open>collate\<close> gives the strings.
\<close>

definition pickMonth :: "entry \<Rightarrow> jsstring option" where
  "pickMonth entry = (case e_date entry of DateStr d \<Rightarrow> Some (take 7 d) | _ \<Rightarrow> None)"

definition dateOrEmpty :: "entry \<Rightarrow> jsstring" where
  "dateOrEmpty a = (case e_date a of DateStr d \<Rightarrow> d | _ \<Rightarrow> [])"

definition readArchive :: "(jsstring \<rightharpoonup> entry list) \<Rightarrow> jsstring \<Rightarrow> entry list" where
  "readArchive fs month = (case fs month of None \<Rightarrow> [] | Some xs \<Rightarrow> xs)"

text \<open>The body of the loop over the evicted entries; \<open>if (!month) continue\<close> first.\<close>

definition archiveEntry :: "(jsstring \<Rightarrow> 'k::linorder) \<Rightarrow> (jsstring \<rightharpoonup> entry list) \<Rightarrow> entry \<Rightarrow> (jsstring \<rightharpoonup> entry list)" where
  "archiveEntry collate fs entry =
     (case pickMonth entry of
        None \<Rightarrow> fs
      | Some month \<Rightarrow>
          if month = [] then fs
          else fs(month \<mapsto> sort_key (\<lambda>a. collate (dateOrEmpty a)) (readArchive fs month @ [entry])))"

definition rollWindowAndArchive :: "(jsstring \<Rightarrow> 'k::linorder) \<Rightarrow> entry list \<Rightarrow> nat \<Rightarrow> (jsstring \<rightharpoonup> entry list) \<Rightarrow> entry list \<times> (jsstring \<rightharpoonup> entry list)" where
  "rollWindowAndArchive collate items limit fs =
     (if length items \<le> limit then (items, fs)
      else (take limit items, foldl (archiveEntry collate) fs (drop limit items)))"

text \<open>An evicted entry goes to the file of \<open>month\<close> when that is its truthy month.\<close>

definition archivedUnder :: "jsstring \<Rightarrow> entry \<Rightarrow> bool" where
  "archivedUnder month entry = (month \<noteq> [] \<and> pickMonth entry = Some month)"

text \<open>Code-unit order, which is how any collation orders ISO dates.\<close>

definition codeUnits :: "jsstring \<Rightarrow> jsstring" where
  "codeUnits s = s"

section \<open>Orchestrator\<close>

text \<open>
  What a run of \<open>main\<close> finds: the flag of the command line, the environment, the
  decoded catalog and history files (\<open>readJSON\<close> gives \<open>[]\<close> for a file that is
  absent), the archive directory, the date \<open>today()\<close>, the backend's replies and the
  UUID of the new lesson.
\<close>

record world =
  dryRun :: bool
  environment :: env
  topicsFile :: "level list"
  dailyFile :: "entry list"
  archiveFiles :: "jsstring \<rightharpoonup> entry list"
  todayStr :: jsstring
  backend :: "nat \<Rightarrow> error + jsstring"
  uuid :: jsstring

definition maxRetries :: "bool \<Rightarrow> nat" where
  "maxRetries dry = (if dry then 0 else 2)"

definition backoff :: "nat \<Rightarrow> nat" where
  "backoff attempt = (if attempt = 0 then 2000 else 5000)"

text \<open>
  The body of the \<open>try\<close>: \<open>generateLesson\<close> from request \<open>n\<close> on, then
  \<open>coerceLesson\<close>; with it, the number of requests sent.
\<close>

definition tryAttempt :: "(jsstring \<Rightarrow> json option) \<Rightarrow> (json \<Rightarrow> bool) \<Rightarrow> world \<Rightarrow> candidate \<Rightarrow> nat \<Rightarrow> (error + entry) \<times> nat" where
  "tryAttempt jsonParse belowNine w candidate n =
     (let a = generateLesson jsonParse belowNine (environment w) (backend w) n in
      (case a_result a of
         Inl err \<Rightarrow> Inl err
       | Inr content \<Rightarrow> coerceLesson candidate content (todayStr w) (uuid w),
       requestsOf (environment w) a))"

text \<open>
  The loop \<open>while (attempts <= maxRetries)\<close>, entered with \<open>attempts\<close> failures
  behind it and \<open>n\<close> requests sent: the lesson if an attempt succeeds, the number of
  attempts made, the requests they sent, and the delays slept between them. After a
  failure \<open>attempts\<close> is incremented; the process exits when it exceeds
  \<open>maxRetries\<close>, and sleeps \<open>backoff(attempts - 1)\<close> otherwise.
\<close>

record looped =
  l_lesson :: "entry option"
  l_attempts :: nat
  l_requests :: nat
  l_delays :: "nat list"

function retryLoop :: "(jsstring \<Rightarrow> json option) \<Rightarrow> (json \<Rightarrow> bool) \<Rightarrow> world \<Rightarrow> candidate \<Rightarrow> nat \<Rightarrow> nat \<Rightarrow> looped" where
  "retryLoop jsonParse belowNine w candidate attempts n =
     (if attempts \<le> maxRetries (dryRun w) then
        (case tryAttempt jsonParse belowNine w candidate n of
           (Inr lesson, k) \<Rightarrow>
             \<lparr> l_lesson = Some lesson, l_attempts = 1, l_requests = k, l_delays = [] \<rparr>
         | (Inl err, k) \<Rightarrow>
             if attempts + 1 > maxRetries (dryRun w) then
               \<lparr> l_lesson = None, l_attempts = 1, l_requests = k, l_delays = [] \<rparr>
             else
               (let rest = retryLoop jsonParse belowNine w candidate (attempts + 1) (n + k) in
                \<lparr> l_lesson = l_lesson rest,
                  l_attempts = 1 + l_attempts rest,
                  l_requests = k + l_requests rest,
                  l_delays = backoff (attempts + 1 - 1) # l_delays rest \<rparr>))
      else \<lparr> l_lesson = None, l_attempts = 0, l_requests = 0, l_delays = [] \<rparr>)"
  by pat_completeness auto
termination
  by (relation "measure (\<lambda>(jsonParse, belowNine, w, candidate, attempts, n).
        maxRetries (dryRun w) + 1 - attempts)") auto

declare retryLoop.simps [simp del]

text \<open>
  What a run leaves: the exit code, the attempts of the pipeline, the requests sent to
  the backend, the delays slept, the history file, the archive directory, and the lesson
  that a dry run prints.
\<close>

record outcome =
  exitCode :: nat
  pipelineRuns :: nat
  requestsSent :: nat
  delays :: "nat list"
  dailyOut :: "entry list"
  archiveOut :: "jsstring \<rightharpoonup> entry list"
  printed :: "entry option"

text \<open>A run that ends before the loop, with the files as they were.\<close>

definition ended :: "world \<Rightarrow> nat \<Rightarrow> outcome" where
  "ended w code =
     \<lparr> exitCode = code, pipelineRuns = 0, requestsSent = 0, delays = [],
       dailyOut = dailyFile w, archiveOut = archiveFiles w, printed = None \<rparr>"

text \<open>\<open>history.length > 0 && history[0].date === todayStr\<close>.\<close>

definition generatedToday :: "world \<Rightarrow> entry list \<Rightarrow> bool" where
  "generatedToday w history =
     (case history of [] \<Rightarrow> False | newest # _ \<Rightarrow> e_date newest = DateStr (todayStr w))"

text \<open>
  \<open>main\<close>. An exception that leaves it reaches \<open>main().catch\<close>, which exits with
  code 1; so does \<open>flattenTopics\<close> when it throws. \<open>rollWindowAndArchive\<close> runs in
  a dry run too; only the write of the history file is skipped there.
\<close>

definition main :: "(jsstring \<Rightarrow> json option) \<Rightarrow> (jsstring \<Rightarrow> int option) \<Rightarrow> (jsstring \<Rightarrow> 'k::linorder) \<Rightarrow> (json \<Rightarrow> bool) \<Rightarrow> engine \<Rightarrow> world \<Rightarrow> outcome" where
  "main jsonParse dateParse collate belowNine eng w =
     (case loadCatalog eng (topicsFile w) of
        Inl err \<Rightarrow> ended w 1
      | Inr candidates \<Rightarrow>
          (let history = dailyFile w in
           if generatedToday w history \<and> \<not> dryRun w
           then ended w 0
           else
             (case pickCandidate dateParse (sortCandidates eng) candidates history of
                None \<Rightarrow> ended w 1
              | Some candidate \<Rightarrow>
                  (let r = retryLoop jsonParse belowNine w candidate 0 0 in
                   (case l_lesson r of
                      None \<Rightarrow>
                        \<lparr> exitCode = 1, pipelineRuns = l_attempts r,
                          requestsSent = l_requests r, delays = l_delays r,
                          dailyOut = dailyFile w, archiveOut = archiveFiles w,
                          printed = None \<rparr>
                    | Some lesson \<Rightarrow>
                        (case rollWindowAndArchive collate (lesson # history) 60 (archiveFiles w) of
                           (kept, archive) \<Rightarrow>
                             \<lparr> exitCode = 0, pipelineRuns = l_attempts r,
                               requestsSent = l_requests r, delays = l_delays r,
                               dailyOut = (if dryRun w then dailyFile w else kept),
                               archiveOut = archive,
                               printed = (if dryRun w then Some lesson else None) \<rparr>))))))"

section \<open>Sample data\<close>

text \<open>
  Concrete catalogs, histories, replies and runs on which the definitions above are
  evaluated. \<open>sampleParse\<close> is \<open>JSON.parse\<close> on the few texts listed, every other
  text being a syntax error; \<open>januaryDates\<close> is what \<open>Date\<close> makes of three days of
  January 2024, in milliseconds.
\<close>

definition topicNamed :: "jsstring \<Rightarrow> int \<Rightarrow> candidate" where
  "topicNamed name n =
     \<lparr> c_id = Some name, c_title = Some name, c_level = js ''Level 1'',
       c_category = Some (js ''Basics''), c_difficulty = Some 1, c_related = [],
       c_order = OrdNum (Fin (of_int n)) \<rparr>"

definition lessonOn :: "jsstring option \<Rightarrow> datefield \<Rightarrow> entry" where
  "lessonOn i d =
     \<lparr> e_id = js ''uuid'', e_date = d, e_topic = None, e_summary = JStr [],
       e_key_points = JArr [], e_practice = [], e_risk_notes = JStr [], e_sources = [],
       e_meta = Some \<lparr> m_id = i, m_category = None, m_difficulty = None, m_level = None,
                        m_related = [], m_tags = [] \<rparr> \<rparr>"

definition sampleCatalog :: "candidate list" where
  "sampleCatalog = [topicNamed (js ''A'') 0, topicNamed (js ''B'') 1, topicNamed (js ''C'') 2]"

definition januaryDates :: "jsstring \<Rightarrow> int option" where
  "januaryDates = map_of
     [(js ''2024-01-01'', 1704067200000),
      (js ''2024-01-02'', 1704153600000),
      (js ''2024-01-03'', 1704240000000)]"

definition samplePractice :: "json list" where
  "samplePractice =
     [JStr (js ''Track spending''),
      JObj [(js ''title'', JStr (js ''Plan'')),
            (js ''steps'', JStr (js ''1. Save\<newline>- Invest'' @ [13, 10, 10, 32, 8226, 32] @ js ''Review  ''))]]"

definition sampleSources :: "json list" where
  "sampleSources =
     [JObj [(js ''url'', JStr (js ''https://a.example''))],
      JObj [(js ''title'', JStr (js ''Book'')), (js ''url'', JStr (js ''https://b.example''))]]"

definition datedEntry :: "string \<Rightarrow> entry" where
  "datedEntry d = lessonOn None (DateStr (js d))"

definition sampleItems :: "entry list" where
  "sampleItems =
     replicate 60 (datedEntry ''2024-03-05'') @
     [datedEntry ''2024-02-10'', datedEntry ''2024-01-20'']"

definition sampleArchive :: "jsstring \<rightharpoonup> entry list" where
  "sampleArchive = [js ''2024-01'' \<mapsto> [datedEntry ''2024-01-25'']]"

definition topicIn :: "string \<Rightarrow> int option \<Rightarrow> topic" where
  "topicIn name n = \<lparr> tp_topic = Some (js name), tp_order = n, tp_related_topics = None \<rparr>"

text \<open>
  An engine for the sample runs: it sorts with the stable insertion sort whatever the
  comparator, and reads a string that is neither empty nor a run of digits as \<open>NaN\<close>;
  no sample needs the string of a Number that is not an integer. The sample catalogs
  are decoded JSON values.
\<close>

definition sampleEngine :: engine where
  "sampleEngine =
     \<lparr> sortCandidates = sortBy, sortItems = sortBy, strNum = (\<lambda>s. NaN), numStr = (\<lambda>r. []) \<rparr>"

definition topicObject :: "string \<Rightarrow> (jsstring \<times> json) list \<Rightarrow> json" where
  "topicObject name members = JObj ((js ''topic'', JStr (js name)) # members)"

definition levelObject :: "json \<Rightarrow> (jsstring \<times> json) list \<Rightarrow> json list \<Rightarrow> json" where
  "levelObject name members topics =
     JObj [(js ''level'', name),
           (js ''categories'', JArr [JObj (members @ [(js ''topics'', JArr topics)])])]"

definition sampleLevels :: json where
  "sampleLevels =
     JArr
       [levelObject (JStr (js ''Level 12'')) [(js ''recommended_order'', JNum 1)]
          [topicObject ''Index funds'' [(js ''order'', JNum 2)],
           topicObject ''Bonds'' [(js ''order'', JNum 1)]],
        levelObject (JStr (js ''Level 1'')) []
          [topicObject ''Budgeting'' [], topicObject ''Saving'' [(js ''order'', JNull)]],
        JObj [(js ''categories'', JArr [JObj [(js ''category'', JStr (js ''Empty''))]])],
        JObj []]"

definition stringOrder :: json where
  "stringOrder =
     JArr [levelObject (JStr (js ''Level 1'')) [(js ''recommended_order'', JNum 1)]
             [topicObject ''Budgeting'' [(js ''order'', JStr (js ''3''))]]]"

definition nullTopic :: json where
  "nullTopic =
     JArr [levelObject (JStr (js ''Level 1'')) [(js ''recommended_order'', JNum 1)] [JNull]]"

definition numericLevel :: json where
  "numericLevel = JArr [levelObject (JNum 1) [] [topicObject ''Budgeting'' []]]"

definition longLevel :: json where
  "longLevel =
     JArr [levelObject (JStr (js ''L9007199254740993'')) [(js ''recommended_order'', JNum 1)]
             [topicObject ''Budgeting'' [(js ''order'', JNum 1)]]]"

definition unnamedLevel :: level where
  "unnamedLevel =
     \<lparr> lv_level = None,
       lv_categories = Some
         [\<lparr> ct_category = None, ct_difficulty = None, ct_recommended_order = None,
             ct_topics = Some [topicIn ''Budgeting'' None] \<rparr>] \<rparr>"

definition sampleParse :: "jsstring \<Rightarrow> json option" where
  \<open>sampleParse = map_of
     [(js ''{}'', JObj []),
      (js ''\<newline>{}\<newline>'', JObj []),
      (js ''{"topic":"draft"}'', JObj [(js ''topic'', JStr (js ''draft''))]),
      (js ''{"topic":"revised"}'', JObj [(js ''topic'', JStr (js ''revised''))]),
      (js ''{"score":8}'', JObj [(js ''score'', JNum 8)]),
      (js ''{"score":9}'', JObj [(js ''score'', JNum 9)])]\<close>

definition sampleReplies :: "jsstring \<Rightarrow> nat \<Rightarrow> error + jsstring" where
  \<open>sampleReplies critique n =
     (if n = 0 then Inr (js ''{}'')
      else if n = 1 then Inr (js ''```json{"topic":"draft"}```'')
      else if n = 2 then Inr critique
      else Inr (js ''{"topic":"revised"}''))\<close>

definition sampleEnv :: env where
  "sampleEnv = \<lparr> LLM_API_KEY = None, DEEPSEEK_API_KEY = Some (js ''sk-1'') \<rparr>"

definition budgeting :: candidate where
  "budgeting =
     \<lparr> c_id = Some (js ''Budgeting''), c_title = Some (js ''Budgeting''),
       c_level = js ''Level 1'', c_category = Some (js ''Basics''), c_difficulty = Some 1,
       c_related = [], c_order = OrdNum (Fin 1101) \<rparr>"

definition oneTopic :: "level list" where
  "oneTopic =
     [\<lparr> lv_level = Some (js ''Level 1''),
         lv_categories = Some
           [\<lparr> ct_category = Some (js ''Basics''), ct_difficulty = Some 1,
               ct_recommended_order = Some 1,
               ct_topics = Some [topicIn ''Budgeting'' (Some 1)] \<rparr>] \<rparr>]"

definition sampleWorld :: world where
  "sampleWorld =
     \<lparr> dryRun = False,
       environment = \<lparr> LLM_API_KEY = None, DEEPSEEK_API_KEY = None \<rparr>,
       topicsFile = oneTopic,
       dailyFile = [],
       archiveFiles = Map.empty,
       todayStr = js ''2024-03-05'',
       backend = (\<lambda>n. Inl ApiError),
       uuid = js ''uuid'' \<rparr>"

section \<open>Properties of the selector\<close>

lemma dom_setEntry:
  "dom (setEntry m e) = dom m \<union> usedIds [e]"
  by (auto simp: setEntry_def usedIds_def split: option.splits if_splits)

lemma usedIds_Cons: "usedIds (e # h) = usedIds [e] \<union> usedIds h"
  by (auto simp: usedIds_def)

lemma dom_foldl_setEntry:
  "dom (foldl setEntry m h) = dom m \<union> usedIds h"
proof (induction h arbitrary: m)
  case Nil
  show ?case by (simp add: usedIds_def)
next
  case (Cons e h)
  show ?case
    using Cons.IH [of "setEntry m e"] usedIds_Cons [of e h]
    by (simp add: dom_setEntry Un_assoc)
qed

lemma dom_summarizeHistory: "dom (summarizeHistory h) = usedIds h"
  by (simp add: summarizeHistory_def dom_foldl_setEntry)

lemma has_iff:
  "has (summarizeHistory h) c \<longleftrightarrow> (\<exists>i. c_id c = Some i \<and> i \<in> usedIds h)"
  using dom_summarizeHistory [of h]
  by (auto simp: has_def split: option.splits)


lemma find_first_unused:
  assumes "\<forall>c \<in> set pre. P c" and "\<not> P c"
  shows "find (\<lambda>x. \<not> P x) (pre @ c # post) = Some c"
  using assms by (induction pre) auto

lemma pickCandidate_first_unused:
  assumes "\<forall>p \<in> set pre. has (summarizeHistory h) p"
    and "\<not> has (summarizeHistory h) c"
  shows "pickCandidate dp es (pre @ c # post) h = Some c"
proof -
  have "find (\<lambda>x. \<not> has (summarizeHistory h) x) (pre @ c # post) = Some c"
    using assms by (rule find_first_unused)
  then show ?thesis
    by (cases pre) (simp_all add: pickCandidate_def)
qed

lemma usedIds_lesson:
  "usedIds ((e \<lparr> e_meta := Some (lessonMeta c) \<rparr>) # h) =
     (case c_id c of None \<Rightarrow> usedIds h | Some i \<Rightarrow> if i = [] then usedIds h else insert i (usedIds h))"
  by (auto simp: usedIds_def lessonMeta_def split: option.splits)

lemma selections_cover:
  assumes "distinct (map c_id (pre @ post))"
    and "\<forall>c \<in> set (pre @ post). truthyStr (c_id c)"
    and "\<forall>c \<in> set pre. has (summarizeHistory h) c"
    and "\<forall>c \<in> set post. \<not> has (summarizeHistory h) c"
  shows "selections dp es lesson (pre @ post) h (length post) = post"
  using assms
proof (induction post arbitrary: pre h lesson)
  case Nil
  show ?case by simp
next
  case (Cons c post)
  let ?h' = "lesson 0 \<lparr> e_meta := Some (lessonMeta c) \<rparr> # h"
  obtain i where i: "c_id c = Some i" "i \<noteq> []"
    using Cons.prems(2) by (cases "c_id c") auto
  have pick: "pickCandidate dp es (pre @ c # post) h = Some c"
    using Cons.prems(3,4) by (intro pickCandidate_first_unused) auto
  have used: "usedIds ?h' = insert i (usedIds h)"
    using i by (simp add: usedIds_lesson)
  have d: "distinct (map c_id ((pre @ [c]) @ post))"
    using Cons.prems(1) by simp
  have t: "\<forall>x \<in> set ((pre @ [c]) @ post). truthyStr (c_id x)"
    using Cons.prems(2) by simp
  have a: "\<forall>x \<in> set (pre @ [c]). has (summarizeHistory ?h') x"
    using Cons.prems(3) i by (auto simp: has_iff used)
  have b: "\<forall>x \<in> set post. \<not> has (summarizeHistory ?h') x"
  proof
    fix x assume x: "x \<in> set post"
    then have "\<not> has (summarizeHistory h) x" using Cons.prems(4) by simp
    moreover have "c_id x \<noteq> Some i"
      using Cons.prems(1) x i by (auto simp: image_iff)
    ultimately show "\<not> has (summarizeHistory ?h') x"
      by (auto simp: has_iff used)
  qed
  have "selections dp es (\<lambda>k. lesson (Suc k)) ((pre @ [c]) @ post) ?h' (length post) = post"
    using Cons.IH [OF d t a b] .
  then show ?case using pick by simp
qed


text \<open>
  C1 (as amended). For a catalog whose ids are distinct and truthy (present and not the
  empty string), starting from the empty history, the first \<open>length cs\<close> selections,
  each fed back as the newest history entry, are the catalog itself in catalog order:
  every candidate is selected exactly once before any is selected again.
\<close>

theorem sequential_coverage:
  assumes "distinct (map c_id cs)"
    and "\<forall>c \<in> set cs. truthyStr (c_id c)"
  shows "selections dp es lesson cs [] (length cs) = cs \<and>
         distinct (selections dp es lesson cs [] (length cs))"
proof -
  have "\<forall>c \<in> set cs. \<not> has (summarizeHistory []) c"
    by (simp add: has_iff usedIds_def)
  then have "selections dp es lesson ([] @ cs) [] (length cs) = cs"
    using assms by (intro selections_cover) simp_all
  moreover have "distinct cs"
    using assms(1) by (rule distinct_map [THEN iffD1, THEN conjunct1])
  ultimately show ?thesis by simp
qed

theorem sequential_coverage_witness:
  "distinct (map c_id sampleCatalog) \<and>
   selections januaryDates sortBy (\<lambda>n. lessonOn None NoDate) sampleCatalog [] (length sampleCatalog) =
     sampleCatalog"
proof -
  have d: "distinct (map c_id sampleCatalog)"
    by (simp add: sampleCatalog_def topicNamed_def js_def)
  have t: "\<forall>c \<in> set sampleCatalog. truthyStr (c_id c)"
    by (simp add: sampleCatalog_def topicNamed_def js_def)
  show ?thesis
    using sequential_coverage [OF d t, of januaryDates sortBy "\<lambda>n. lessonOn None NoDate"] d
    by blast
qed

text \<open>
  C1 as stated fails: ids that are distinct need not be truthy. With a first topic whose
  name is the empty string, the history never records its use, and the second selection
  is that same candidate again, before the second candidate has been selected.
\<close>

theorem sequential_coverage_counterexample:
  "distinct (map c_id [topicNamed [] 0, topicNamed (js ''B'') 1]) \<and>
   selections januaryDates sortBy (\<lambda>n. lessonOn None NoDate)
     [topicNamed [] 0, topicNamed (js ''B'') 1] [] 2 =
     [topicNamed [] 0, topicNamed [] 0]"
  by (simp add: topicNamed_def js_def numeral_2_eq_2 pickCandidate_def summarizeHistory_def
      setEntry_def has_def lessonMeta_def lessonOn_def)

text \<open>
  What the summary holds for an id: the date of the last entry of the history that
  carries it, which in a newest-first history is the oldest use.
\<close>

lemma foldl_setEntry_last:
  "i \<noteq> [] \<Longrightarrow>
     foldl setEntry m h i =
       (case mostRecentUse (rev h) i of None \<Rightarrow> m i | Some d \<Rightarrow> Some d)"
proof (induction h rule: rev_induct)
  case Nil
  show ?case by (simp add: mostRecentUse_def)
next
  case (snoc e h)
  then show ?case
    by (auto simp: mostRecentUse_def setEntry_def split: option.splits)
qed

lemma summarizeHistory_oldest:
  "i \<noteq> [] \<Longrightarrow> summarizeHistory h i = mostRecentUse (rev h) i"
  by (simp add: summarizeHistory_def foldl_setEntry_last split: option.splits)

text \<open>
  C2. The claim does not hold of the code: \<open>map.set\<close> overwrites, so the summary keeps
  for an id the date of its last entry in the newest-first history, which is its oldest
  use. With history A (3 January), B (2 January), A (1 January) the summary maps A to
  1 January although its most recent use is 3 January, and the selector returns A,
  whereas the candidate whose last use is oldest is B.
\<close>

theorem recycling_uses_oldest_date:
  "summarizeHistory
     [lessonOn (Some (js ''A'')) (DateStr (js ''2024-01-03'')),
      lessonOn (Some (js ''B'')) (DateStr (js ''2024-01-02'')),
      lessonOn (Some (js ''A'')) (DateStr (js ''2024-01-01''))] (js ''A'') =
     Some (DateStr (js ''2024-01-01'')) \<and>
   mostRecentUse
     [lessonOn (Some (js ''A'')) (DateStr (js ''2024-01-03'')),
      lessonOn (Some (js ''B'')) (DateStr (js ''2024-01-02'')),
      lessonOn (Some (js ''A'')) (DateStr (js ''2024-01-01''))] (js ''A'') =
     Some (DateStr (js ''2024-01-03'')) \<and>
   pickCandidate januaryDates sortBy [topicNamed (js ''A'') 0, topicNamed (js ''B'') 1]
     [lessonOn (Some (js ''A'')) (DateStr (js ''2024-01-03'')),
      lessonOn (Some (js ''B'')) (DateStr (js ''2024-01-02'')),
      lessonOn (Some (js ''A'')) (DateStr (js ''2024-01-01''))] =
     Some (topicNamed (js ''A'') 0)"
  by (simp add: topicNamed_def js_def pickCandidate_def summarizeHistory_def
      setEntry_def has_def lessonOn_def mostRecentUse_def sortBy_def dateCmp_def
      lastUsed_def newDate_def januaryDates_def sortUsed_def)


section \<open>Properties of the archive\<close>

lemma archiveEntry_mset:
  "mset (readArchive (archiveEntry coll fs e) m) =
     mset (readArchive fs m) + (if archivedUnder m e then {#e#} else {#})"
  by (auto simp: archiveEntry_def archivedUnder_def readArchive_def split: option.splits)

lemma archive_foldl_mset:
  "mset (readArchive (foldl (archiveEntry coll) fs es) m) =
     mset (readArchive fs m) + mset (filter (archivedUnder m) es)"
  by (induction es arbitrary: fs) (simp_all add: archiveEntry_mset)

lemma archiveEntry_other:
  "\<not> archivedUnder m e \<Longrightarrow> archiveEntry coll fs e m = fs m"
  by (auto simp: archiveEntry_def archivedUnder_def split: option.splits)

lemma archiveEntry_sorted:
  "archivedUnder m e \<Longrightarrow>
     sorted (map (\<lambda>a. coll (dateOrEmpty a)) (readArchive (archiveEntry coll fs e) m))"
  by (auto simp: archiveEntry_def archivedUnder_def readArchive_def)

lemma archive_foldl_untouched:
  "\<forall>e \<in> set es. \<not> archivedUnder m e \<Longrightarrow> foldl (archiveEntry coll) fs es m = fs m"
  by (induction es arbitrary: fs) (simp_all add: archiveEntry_other)

lemma archive_foldl_sorted:
  "\<exists>e \<in> set es. archivedUnder m e \<Longrightarrow>
     sorted (map (\<lambda>a. coll (dateOrEmpty a)) (readArchive (foldl (archiveEntry coll) fs es) m))"
proof (induction es arbitrary: fs rule: rev_induct)
  case Nil
  then show ?case by simp
next
  case (snoc e es)
  show ?case
  proof (cases "archivedUnder m e")
    case True
    then show ?thesis by (simp add: archiveEntry_sorted)
  next
    case False
    then have "\<exists>x \<in> set es. archivedUnder m x" using snoc.prems by auto
    then have "sorted (map (\<lambda>a. coll (dateOrEmpty a)) (readArchive (foldl (archiveEntry coll) fs es) m))"
      by (rule snoc.IH)
    then show ?thesis using False by (simp add: archiveEntry_other readArchive_def)
  qed
qed

text \<open>
  C3 (as amended). With limit 60 the kept list is the first 60 entries of the input (the
  input itself when it has at most 60, and then no file changes), so it has at most 60
  entries. Every evicted entry whose \<open>date\<close> gives a truthy month is added once to the
  archive file of that month and to no other file; every file that receives an entry
  is left sorted ascending by date; the other files are not changed. An evicted entry
  with no date, or an empty one, is archived nowhere.
\<close>

theorem bounded_history_archival:
  assumes "rollWindowAndArchive coll items 60 fs = (kept, fs')"
  shows "length kept \<le> 60 \<and> kept = take 60 items \<and>
         (length items \<le> 60 \<longrightarrow> kept = items \<and> fs' = fs) \<and>
         (\<forall>m. mset (readArchive fs' m) =
                mset (readArchive fs m) + mset (filter (archivedUnder m) (drop 60 items))) \<and>
         (\<forall>m. (\<exists>e \<in> set (drop 60 items). archivedUnder m e) \<longrightarrow>
                sorted (map (\<lambda>a. coll (dateOrEmpty a)) (readArchive fs' m))) \<and>
         (\<forall>m. (\<forall>e \<in> set (drop 60 items). \<not> archivedUnder m e) \<longrightarrow> fs' m = fs m)"
proof (cases "length items \<le> 60")
  case True
  then have "kept = items" "fs' = fs"
    using assms by (simp_all add: rollWindowAndArchive_def)
  then show ?thesis using True by simp
next
  case False
  then have k: "kept = take 60 items"
    and f: "fs' = foldl (archiveEntry coll) fs (drop 60 items)"
    using assms by (simp_all add: rollWindowAndArchive_def)
  have "length kept \<le> 60" using k by simp
  moreover have "\<forall>m. mset (readArchive fs' m) =
      mset (readArchive fs m) + mset (filter (archivedUnder m) (drop 60 items))"
    unfolding f by (simp add: archive_foldl_mset)
  moreover have "\<forall>m. (\<exists>e \<in> set (drop 60 items). archivedUnder m e) \<longrightarrow>
      sorted (map (\<lambda>a. coll (dateOrEmpty a)) (readArchive fs' m))"
    unfolding f using archive_foldl_sorted by blast
  moreover have "\<forall>m. (\<forall>e \<in> set (drop 60 items). \<not> archivedUnder m e) \<longrightarrow> fs' m = fs m"
    unfolding f using archive_foldl_untouched by blast
  ultimately show ?thesis using k False by simp
qed


theorem bounded_history_archival_witness:
  "rollWindowAndArchive codeUnits sampleItems 60 sampleArchive =
     (replicate 60 (datedEntry ''2024-03-05''),
      snd (rollWindowAndArchive codeUnits sampleItems 60 sampleArchive)) \<and>
   length (replicate 60 (datedEntry ''2024-03-05'')) \<le> 60 \<and>
   mset (readArchive (snd (rollWindowAndArchive codeUnits sampleItems 60 sampleArchive)) (js ''2024-01'')) =
     {#datedEntry ''2024-01-25'', datedEntry ''2024-01-20''#} \<and>
   sorted (map (\<lambda>a. codeUnits (dateOrEmpty a))
     (readArchive (snd (rollWindowAndArchive codeUnits sampleItems 60 sampleArchive)) (js ''2024-01''))) \<and>
   snd (rollWindowAndArchive codeUnits sampleItems 60 sampleArchive) (js ''2023-12'') =
     sampleArchive (js ''2023-12'')"
proof -
  let ?fs' = "snd (rollWindowAndArchive codeUnits sampleItems 60 sampleArchive)"
  have run: "rollWindowAndArchive codeUnits sampleItems 60 sampleArchive =
      (replicate 60 (datedEntry ''2024-03-05''), ?fs')"
    by (simp add: rollWindowAndArchive_def sampleItems_def)
  have evicted: "drop 60 sampleItems = [datedEntry ''2024-02-10'', datedEntry ''2024-01-20'']"
    by (simp add: sampleItems_def)
  have jan: "filter (archivedUnder (js ''2024-01'')) (drop 60 sampleItems) = [datedEntry ''2024-01-20'']"
    unfolding evicted
    by (simp add: archivedUnder_def pickMonth_def datedEntry_def lessonOn_def js_def)
  have dec: "\<forall>e \<in> set (drop 60 sampleItems). \<not> archivedUnder (js ''2023-12'') e"
    unfolding evicted
    by (simp add: archivedUnder_def pickMonth_def datedEntry_def lessonOn_def js_def)
  have some: "\<exists>e \<in> set (drop 60 sampleItems). archivedUnder (js ''2024-01'') e"
    unfolding evicted
    by (simp add: archivedUnder_def pickMonth_def datedEntry_def lessonOn_def js_def)
  have old: "readArchive sampleArchive (js ''2024-01'') = [datedEntry ''2024-01-25'']"
    by (simp add: readArchive_def sampleArchive_def)
  note facts = bounded_history_archival [OF run]
  have "mset (readArchive ?fs' (js ''2024-01'')) =
      mset (readArchive sampleArchive (js ''2024-01'')) +
      mset (filter (archivedUnder (js ''2024-01'')) (drop 60 sampleItems))"
    using facts by blast
  then have "mset (readArchive ?fs' (js ''2024-01'')) =
      {#datedEntry ''2024-01-25'', datedEntry ''2024-01-20''#}"
    unfolding jan old by simp
  moreover have "sorted (map (\<lambda>a. codeUnits (dateOrEmpty a)) (readArchive ?fs' (js ''2024-01'')))"
    using facts some by blast
  moreover have "?fs' (js ''2023-12'') = sampleArchive (js ''2023-12'')"
    using facts dec by blast
  ultimately show ?thesis using run by simp
qed

text \<open>
  C3 as stated fails: \<open>if (!month) continue\<close> drops an evicted entry that has no date.
  With 60 dated entries followed by one undated entry and an empty archive, the undated
  entry leaves the live list and no archive file is written.
\<close>

theorem bounded_history_archival_counterexample:
  "rollWindowAndArchive codeUnits
     (replicate 60 (datedEntry ''2024-03-05'') @ [lessonOn None NoDate]) 60 Map.empty =
     (replicate 60 (datedEntry ''2024-03-05''), Map.empty)"
  by (simp add: rollWindowAndArchive_def archiveEntry_def pickMonth_def lessonOn_def)


section \<open>Properties of numbers\<close>

lemma bitLength_bounds:
  "0 < n \<Longrightarrow> 2 ^ (bitLength n - 1) \<le> n \<and> n < 2 ^ bitLength n"
proof (induction n rule: bitLength.induct)
  case (1 n)
  show ?case
  proof (cases "n div 2 \<le> 0")
    case True
    then have "n = 1" using "1.prems" by auto
    then show ?thesis by (simp add: bitLength.simps [of 1] bitLength.simps [of 0])
  next
    case False
    then have pos: "0 < n div 2" by simp
    have IH: "2 ^ (bitLength (n div 2) - 1) \<le> n div 2 \<and> n div 2 < 2 ^ bitLength (n div 2)"
      using "1.IH" "1.prems" pos by simp
    have b: "bitLength n = Suc (bitLength (n div 2))"
      using "1.prems" by (subst bitLength.simps) simp
    have b1: "0 < bitLength (n div 2)"
      using pos by (subst bitLength.simps) simp
    then obtain j where j: "bitLength (n div 2) = Suc j" by (cases "bitLength (n div 2)") auto
    have "2 * (n div 2) \<le> n" "n < 2 * (n div 2) + 2" by auto
    then show ?thesis using IH unfolding b j by auto
  qed
qed

lemma roundHalfEven_int [simp]: "roundHalfEven (of_int j) = j"
  by (simp add: roundHalfEven_def)

lemma toDouble_nat:
  assumes "0 < m" and "m \<le> 2 ^ 53"
  shows "exponentOf (of_int m) = int (bitLength m) - 1"
    and "of_int (roundHalfEven (of_int m / pow2 (int (bitLength m) - 1 - 52))) *
           pow2 (int (bitLength m) - 1 - 52) = (of_int m :: rat)"
proof -
  have bl: "2 ^ (bitLength m - 1) \<le> m" "m < 2 ^ bitLength m"
    using bitLength_bounds [OF assms(1)] by simp_all
  have pos: "0 < bitLength m" using assms(1) by (subst bitLength.simps) simp
  have one: "bitLength 1 = 1" by (simp add: bitLength.simps [of 1] bitLength.simps [of 0])
  have le54: "bitLength m \<le> 54"
  proof (rule ccontr)
    assume "\<not> bitLength m \<le> 54"
    then have "54 \<le> bitLength m - 1" by simp
    then have "(2::int) ^ 54 \<le> 2 ^ (bitLength m - 1)" by (intro power_increasing) simp_all
    then show False using bl(1) assms(2) by simp
  qed
  have p: "pow2 (int (bitLength m) - 1) = 2 ^ (bitLength m - 1)"
    using pos by (simp add: pow2_def nat_diff_distrib)
  have "(2::rat) ^ (bitLength m - 1) = of_int (2 ^ (bitLength m - 1))" by simp
  also have "\<dots> \<le> of_int m" using bl(1) by (simp only: of_int_le_iff)
  finally have "pow2 (int (bitLength m) - 1) \<le> of_int m" using p by simp
  then show "exponentOf (of_int m) = int (bitLength m) - 1"
    by (simp add: exponentOf_def quotient_of_int one Let_def)
  show "of_int (roundHalfEven (of_int m / pow2 (int (bitLength m) - 1 - 52))) *
           pow2 (int (bitLength m) - 1 - 52) = (of_int m :: rat)"
  proof (cases "bitLength m = 54")
    case True
    then have "(2::int) ^ 53 \<le> m" using bl(1) by simp
    then have m: "m = 2 ^ 53" using assms(2) by simp
    have q: "pow2 (int (bitLength m) - 1 - 52) = 2" using True by (simp add: pow2_def)
    have h: "(of_int m :: rat) / 2 = of_int (2 ^ 52)" unfolding m by simp
    show ?thesis unfolding q h roundHalfEven_int unfolding m by simp
  next
    case False
    then have le: "bitLength m \<le> 53" using le54 by simp
    define j where "j = 53 - bitLength m"
    have q: "pow2 (int (bitLength m) - 1 - 52) = 1 / 2 ^ j"
      using le pos by (auto simp: pow2_def j_def nat_diff_distrib intro: arg_cong)
    have "(of_int m :: rat) / (1 / 2 ^ j) = of_int (m * 2 ^ j)" by simp
    then show ?thesis unfolding q by (simp only: roundHalfEven_int) simp
  qed
qed

text \<open>Rounding to a double leaves an integer of magnitude at most \<open>2^53\<close> as it is.\<close>

lemma toDouble_of_int:
  assumes "\<bar>n\<bar> \<le> 2 ^ 53"
  shows "toDouble (of_int n) = Fin (of_int n)"
proof (cases "n = 0")
  case True
  then show ?thesis by (simp add: toDouble_def)
next
  case False
  define m where "m = \<bar>n\<bar>"
  have m: "0 < m" "m \<le> 2 ^ 53" using False assms by (simp_all add: m_def)
  have a: "\<bar>of_int n :: rat\<bar> = of_int m" by (simp add: m_def)
  have small: "\<not> pow2 1024 \<le> (of_int m :: rat)"
  proof -
    have "(of_int m :: rat) \<le> of_int (2 ^ 53)" using m(2) by (simp only: of_int_le_iff)
    also have "\<dots> < 2 ^ 1024" by simp
    finally show ?thesis by (simp add: pow2_def)
  qed
  have e: "max (exponentOf (of_int m)) (- 1022) = int (bitLength m) - 1"
    using toDouble_nat(1) [OF m] by simp
  have "toDouble (of_int n) = Fin (if 0 < (of_int n :: rat) then of_int m else - of_int m)"
    using False small toDouble_nat(2) [OF m]
    by (simp add: toDouble_def a e Let_def)
  then show ?thesis by (auto simp: m_def)
qed

lemma jsMul_int:
  assumes "\<bar>a * b\<bar> \<le> 2 ^ 53"
  shows "jsMul (Fin (of_int a)) (Fin (of_int b)) = Fin (of_int (a * b))"
  using toDouble_of_int [OF assms] by simp

lemma jsAdd_int:
  assumes "\<bar>a + b\<bar> \<le> 2 ^ 53"
  shows "jsAdd (Fin (of_int a)) (Fin (of_int b)) = Fin (of_int (a + b))"
  using toDouble_of_int [OF assms] by simp

lemma jsSub_int:
  assumes "\<bar>a - b\<bar> \<le> 2 ^ 53"
  shows "jsSub (Fin (of_int a)) (Fin (of_int b)) = Fin (of_int (a - b))"
  using toDouble_of_int [OF assms] by (simp add: jsSub_def)


text \<open>Rounding of a concrete number, by rewriting.\<close>

lemma floor_rat_numeral: "\<lfloor>(numeral a :: rat) / numeral b\<rfloor> = numeral a div numeral b"
  using floor_divide_of_int_eq [of "numeral a" "numeral b", where ?'a = rat] by simp

lemmas toDouble_eval =
  toDouble_def exponentOf_def pow2_def roundHalfEven_def bitLength.simps Let_def floor_rat_numeral

section \<open>Properties of the catalog loader\<close>

lemma insertBy_insort_key:
  assumes "\<And>y. y \<in> set ys \<Longrightarrow> (cmp x y \<le> 0) = (key x \<le> key y)"
  shows "insertBy cmp x ys = insort_key key x ys"
  using assms by (induction ys) simp_all

lemma sortBy_sort_key:
  assumes "\<And>a b. a \<in> set xs \<Longrightarrow> b \<in> set xs \<Longrightarrow> (cmp a b \<le> 0) = (key a \<le> key b)"
  shows "sortBy cmp xs = sort_key key xs"
  using assms
proof (induction xs)
  case Nil
  show ?case by (simp add: sortBy_def)
next
  case (Cons x xs)
  have IH: "sortBy cmp xs = sort_key key xs" using Cons by simp
  have "insertBy cmp x (sort_key key xs) = insort_key key x (sort_key key xs)"
    by (rule insertBy_insort_key) (simp add: Cons.prems)
  then show ?case using IH by (simp add: sortBy_def)
qed

lemma collect_Inr:
  assumes "\<And>x. x \<in> set xs \<Longrightarrow> f x = Inr (g x)"
  shows "collect f xs = Inr (concat (map g xs))"
  using assms by (induction xs) simp_all

lemma digitsValue_nonneg: "0 \<le> digitsValue ds"
proof -
  have "0 \<le> acc \<Longrightarrow> 0 \<le> foldl (\<lambda>acc d. acc * 10 + int (d - 48)) acc ds" for acc
    by (induction ds arbitrary: acc) simp_all
  then show ?thesis by (simp add: digitsValue_def)
qed

lemma numberField_toNumber:
  assumes "numberField x"
  shows "toNumber eng (orJson x (JNum 0)) = Fin (of_int (numberOr0 x))"
    and "\<bar>numberOr0 x\<bar> \<le> 10 ^ 12"
    and "jsPlus eng y (orJson x (JNum 0)) = OrdNum (jsAdd y (Fin (of_int (numberOr0 x))))"
proof -
  have z: "toDouble 0 = Fin 0" by (simp add: toDouble_def)
  consider "x = None" | v where "x = Some v" "\<not> truthy v" "numberOr0 x = 0"
    | n where "x = Some (JNum n)" "n \<noteq> 0" "n = of_int \<lfloor>n\<rfloor>" "\<bar>\<lfloor>n\<rfloor>\<bar> \<le> 10 ^ 12"
  proof (cases x)
    case None then show ?thesis using that by simp
  next
    case (Some v)
    show ?thesis
    proof (cases v)
      case (JNum n)
      then show ?thesis using that(2) [of v] that(3) [of n] Some assms
        by (cases "n = 0") (auto simp: numberField_def numberOr0_def)
    qed (use Some assms that(2) [of v] in \<open>auto simp: numberField_def numberOr0_def\<close>)
  qed
  note cases = this
  have d: "toDouble n = Fin n" if "n = of_int \<lfloor>n\<rfloor>" "\<bar>\<lfloor>n\<rfloor>\<bar> \<le> 10 ^ 12" for n
  proof -
    have "\<bar>\<lfloor>n\<rfloor>\<bar> \<le> 2 ^ 53" using that(2) by simp
    from toDouble_of_int [OF this] show ?thesis using that(1) by simp
  qed
  show "toNumber eng (orJson x (JNum 0)) = Fin (of_int (numberOr0 x))"
    using cases
  proof cases
    case 1 then show ?thesis by (simp add: orJson_def toNumber_def numberOr0_def z)
  next
    case 2 then show ?thesis by (simp add: orJson_def toNumber_def z)
  next
    case 3
    then show ?thesis using d [OF 3(3,4)] by (simp add: orJson_def toNumber_def numberOr0_def)
  qed
  show "\<bar>numberOr0 x\<bar> \<le> 10 ^ 12"
    using cases by cases (simp_all add: numberOr0_def)
  show "jsPlus eng y (orJson x (JNum 0)) = OrdNum (jsAdd y (Fin (of_int (numberOr0 x))))"
    using cases
  proof cases
    case 1 then show ?thesis by (simp add: orJson_def jsPlus_def toNumber_def numberOr0_def z)
  next
    case 2 then show ?thesis by (simp add: orJson_def jsPlus_def toNumber_def z)
  next
    case 3
    then show ?thesis using d [OF 3(3,4)]
      by (simp add: orJson_def jsPlus_def toNumber_def numberOr0_def)
  qed
qed

lemma levelNumber_exact:
  assumes "digitsValue (firstDigits name) \<le> 10 ^ 12"
  shows "levelNumber name = Fin (of_int (digitsValue (firstDigits name)))"
proof (cases "firstDigits name")
  case Nil
  then show ?thesis by (simp add: levelNumber_def digitsValue_def)
next
  case (Cons d ds)
  have "\<bar>digitsValue (firstDigits name)\<bar> \<le> 2 ^ 53"
    using assms digitsValue_nonneg [of "firstDigits name"] by simp
  from toDouble_of_int [OF this] show ?thesis using Cons by (simp add: levelNumber_def)
qed

lemma newItem_ok:
  assumes "tp \<noteq> JNull" and "named lv" and "numberField (jget ct (js ''recommended_order''))"
    and "wellTopic tp"
  shows "newItem eng lv ct tp = Inr (itemOf lv ct tp)"
proof -
  obtain name where name: "jget lv (js ''level'') = Some (JStr name)"
    and small: "digitsValue (firstDigits name) \<le> 10 ^ 12"
    using assms(2) by (auto simp: named_def split: option.splits json.splits)
  define L where "L = digitsValue (firstDigits name)"
  define c where "c = numberOr0 (jget ct (js ''recommended_order''))"
  define t where "t = numberOr0 (jget tp (js ''order''))"
  have L: "0 \<le> L" "L \<le> 10 ^ 12" using small digitsValue_nonneg by (simp_all add: L_def)
  have c: "\<bar>c\<bar> \<le> 10 ^ 12" using numberField_toNumber(2) [OF assms(3)] by (simp add: c_def)
  have t: "\<bar>t\<bar> \<le> 10 ^ 12"
    using numberField_toNumber(2) [OF assms(4) [unfolded wellTopic_def]] by (simp add: t_def)
  have ln: "levelNumber name = Fin (of_int L)"
    using levelNumber_exact [OF small] by (simp add: L_def)
  have m1: "jsMul (Fin (of_int L)) (Fin 1000) = Fin (of_int (L * 1000))"
    using jsMul_int [of L 1000] L by simp
  have m2: "jsMul (Fin (of_int c)) (Fin 100) = Fin (of_int (c * 100))"
    using jsMul_int [of c 100] c by simp
  have a1: "jsAdd (Fin (of_int (L * 1000))) (Fin (of_int (c * 100))) =
      Fin (of_int (L * 1000 + c * 100))"
    using L c by (intro jsAdd_int) simp
  have a2: "jsAdd (Fin (of_int (L * 1000 + c * 100))) (Fin (of_int t)) =
      Fin (of_int (L * 1000 + c * 100 + t))"
    using L c t by (intro jsAdd_int) simp
  have ord: "jsPlus eng
       (jsAdd (jsMul (levelNumber name) (Fin 1000))
          (jsMul (toNumber eng (orJson (jget ct (js ''recommended_order'')) (JNum 0))) (Fin 100)))
       (orJson (jget tp (js ''order'')) (JNum 0)) =
     OrdNum (Fin (of_int (orderKey L c t)))"
    unfolding numberField_toNumber(1) [OF assms(3)]
      numberField_toNumber(3) [OF assms(4) [unfolded wellTopic_def]] ln
      c_def [symmetric] t_def [symmetric] m1 m2 a1 a2 orderKey_def ..
  show ?thesis
    using assms(1) name ord
    by (cases tp) (simp_all add: newItem_def itemOf_def levelName_def level_number_def
        L_def c_def t_def)
qed

lemma categoryItems_ok:
  assumes "ct \<noteq> JNull" and "wellCategory ct"
    and "entriesOf (jget ct (js ''topics'')) = [] \<or> named lv"
  shows "categoryItems eng lv ct =
    Inr (map (itemOf lv ct) (entriesOf (jget ct (js ''topics''))))"
proof (cases "truthy (orJson (jget ct (js ''topics'')) JNull)")
  case False
  then have "entriesOf (jget ct (js ''topics'')) = []"
    by (auto simp: entriesOf_def orJson_def split: option.splits json.splits if_splits)
  then show ?thesis using False assms(1) by (cases ct) (simp_all add: categoryItems_def)
next
  case True
  then obtain tps where tps: "jget ct (js ''topics'') = Some (JArr tps)"
    and nn: "list_all (\<lambda>v. v \<noteq> JNull) tps"
    using assms(2)
    by (auto simp: wellCategory_def listField_def orJson_def split: option.splits json.splits if_splits)
  have wt: "list_all wellTopic tps" using assms(2) tps by (simp add: wellCategory_def entriesOf_def)
  have nf: "numberField (jget ct (js ''recommended_order''))"
    using assms(2) by (simp add: wellCategory_def)
  have "collect (\<lambda>tp. case newItem eng lv ct tp of Inl e \<Rightarrow> Inl e | Inr c \<Rightarrow> Inr [c]) tps =
      Inr (concat (map (\<lambda>tp. [itemOf lv ct tp]) tps))"
  proof (rule collect_Inr)
    fix tp assume tp: "tp \<in> set tps"
    then have "tps \<noteq> []" by auto
    then have nm: "named lv" using assms(3) tps by (simp add: entriesOf_def)
    have "newItem eng lv ct tp = Inr (itemOf lv ct tp)"
      using tp nn wt nm nf by (intro newItem_ok) (auto simp: list_all_iff)
    then show "(case newItem eng lv ct tp of Inl e \<Rightarrow> Inl e | Inr c \<Rightarrow> Inr [c]) =
        Inr [itemOf lv ct tp]" by simp
  qed
  moreover have "concat (map (\<lambda>tp. [itemOf lv ct tp]) tps) = map (itemOf lv ct) tps"
    by (induction tps) simp_all
  ultimately show ?thesis using assms(1) tps
    by (cases ct) (simp_all add: categoryItems_def orJson_def iterate_def entriesOf_def)
qed

lemma levelItems_ok:
  assumes "lv \<noteq> JNull" and "wellLevel lv"
  shows "levelItems eng lv = Inr (levelTraversal lv)"
proof (cases "truthy (orJson (jget lv (js ''categories'')) JNull)")
  case False
  then have "entriesOf (jget lv (js ''categories'')) = []"
    by (auto simp: entriesOf_def orJson_def split: option.splits json.splits if_splits)
  then show ?thesis using False assms(1)
    by (cases lv) (simp_all add: levelItems_def levelTraversal_def)
next
  case True
  then obtain cats where cats: "jget lv (js ''categories'') = Some (JArr cats)"
    and nn: "list_all (\<lambda>v. v \<noteq> JNull) cats"
    using assms(2)
    by (auto simp: wellLevel_def listField_def orJson_def split: option.splits json.splits if_splits)
  have wc: "list_all wellCategory cats" using assms(2) cats by (simp add: wellLevel_def entriesOf_def)
  have "collect (categoryItems eng lv) cats =
      Inr (concat (map (\<lambda>ct. map (itemOf lv ct) (entriesOf (jget ct (js ''topics'')))) cats))"
  proof (rule collect_Inr)
    fix ct assume ct: "ct \<in> set cats"
    have "entriesOf (jget ct (js ''topics'')) = [] \<or> named lv"
    proof (cases "named lv")
      case False
      then have "levelTraversal lv = []" using assms(2) by (simp add: wellLevel_def)
      then show ?thesis using ct cats by (auto simp: levelTraversal_def entriesOf_def)
    qed simp
    then show "categoryItems eng lv ct =
        Inr (map (itemOf lv ct) (entriesOf (jget ct (js ''topics''))))"
      using ct nn wc by (intro categoryItems_ok) (auto simp: list_all_iff)
  qed
  then show ?thesis using assms(1) cats
    by (cases lv) (simp_all add: levelItems_def levelTraversal_def orJson_def iterate_def entriesOf_def)
qed

lemma collect_levelItems:
  assumes "wellFormed (JArr lvs)"
  shows "collect (levelItems eng) lvs = Inr (traversal (JArr lvs))"
  unfolding traversal_def json.case
  using assms by (intro collect_Inr levelItems_ok) (auto simp: wellFormed_def list_all_iff)



lemmas flatten_eval =
  flattenTopics_def iterate_def levelItems_def categoryItems_def newItem_def orJson_def
  levelNumber_def firstDigits_def digitsValue_def isDigit_def js_def jsPlus_def toNumber_def
  sortByOrder_def orderNumber_def isFin_def sortBy_def stringToNumber_def numberToString_def
  digitsOf.simps levelObject_def topicObject_def sampleEngine_def

lemma traversal_keys:
  assumes "wellFormed catalog" and "it \<in> set (traversal catalog)"
  shows "\<exists>k. i_order it = OrdNum (Fin (of_int k)) \<and> \<bar>k\<bar> \<le> 2 * 10 ^ 15"
proof -
  obtain lvs where lvs: "catalog = JArr lvs" using assms(1)
    by (cases catalog) (simp_all add: wellFormed_def)
  obtain lv where lv: "lv \<in> set lvs" "it \<in> set (levelTraversal lv)"
    using assms(2) lvs by (auto simp: traversal_def)
  have wl: "wellLevel lv" using assms(1) lvs lv(1) by (simp add: wellFormed_def list_all_iff)
  obtain ct tp where ct: "ct \<in> set (entriesOf (jget lv (js ''categories'')))"
    and tp: "tp \<in> set (entriesOf (jget ct (js ''topics'')))" and it: "it = itemOf lv ct tp"
    using lv(2) by (auto simp: levelTraversal_def)
  have "named lv" using wl lv(2) by (auto simp: wellLevel_def)
  then have L: "level_number lv \<le> 10 ^ 12"
    by (auto simp: named_def level_number_def levelName_def split: option.splits json.splits)
  have L0: "0 \<le> level_number lv" by (simp add: level_number_def digitsValue_nonneg)
  have wc: "wellCategory ct" using wl ct by (simp add: wellLevel_def list_all_iff)
  then have c: "\<bar>numberOr0 (jget ct (js ''recommended_order''))\<bar> \<le> 10 ^ 12"
    by (intro numberField_toNumber(2)) (simp add: wellCategory_def)
  have "wellTopic tp" using wc tp by (simp add: wellCategory_def list_all_iff)
  then have t: "\<bar>numberOr0 (jget tp (js ''order''))\<bar> \<le> 10 ^ 12"
    by (intro numberField_toNumber(2)) (simp add: wellTopic_def)
  have "\<bar>orderKey (level_number lv) (numberOr0 (jget ct (js ''recommended_order'')))
          (numberOr0 (jget tp (js ''order'')))\<bar> \<le> 2 * 10 ^ 15"
    using L L0 c t by (simp add: orderKey_def)
  then show ?thesis unfolding it by (intro exI conjI) (simp_all add: itemOf_def)
qed

lemma sortByOrder_exact:
  assumes "\<And>it. it \<in> set items \<Longrightarrow> \<exists>k. i_order it = OrdNum (Fin (of_int k)) \<and> \<bar>k\<bar> \<le> 2 * 10 ^ 15"
  shows "sortByOrder eng items = sort_key itemKey items"
proof -
  have fin: "list_all (\<lambda>it. isFin (orderNumber eng it)) items"
    using assms by (fastforce simp: list_all_iff orderNumber_def isFin_def)
  have "sortBy (orderCmp eng) items = sort_key itemKey items"
  proof (rule sortBy_sort_key)
    fix a b assume "a \<in> set items" "b \<in> set items"
    then obtain j k where a: "i_order a = OrdNum (Fin (of_int j))" "\<bar>j\<bar> \<le> 2 * 10 ^ 15"
      and b: "i_order b = OrdNum (Fin (of_int k))" "\<bar>k\<bar> \<le> 2 * 10 ^ 15"
      using assms by blast
    have "\<bar>j - k\<bar> \<le> 2 ^ 53" using a(2) b(2) by simp
    from jsSub_int [OF this]
    have "orderCmp eng a b = (if j - k < 0 then - 1 else if j - k = 0 then 0 else 1)"
      by (simp add: orderCmp_def orderNumber_def a(1) b(1))
    then show "(orderCmp eng a b \<le> 0) = (itemKey a \<le> itemKey b)"
      by (simp add: itemKey_def a(1) b(1))
  qed
  then show ?thesis using fin by (simp add: sortByOrder_def)
qed

lemma firstDigits_run:
  assumes "list_all (\<lambda>c. \<not> isDigit c) pre" and "list_all isDigit ds" and "ds \<noteq> []"
    and "rest = [] \<or> \<not> isDigit (hd rest)"
  shows "firstDigits (pre @ ds @ rest) = ds"
proof -
  have "dropWhile (\<lambda>c. \<not> isDigit c) (pre @ ds @ rest) = dropWhile (\<lambda>c. \<not> isDigit c) (ds @ rest)"
    using assms(1) by (simp add: list_all_iff dropWhile_append)
  also have "\<dots> = ds @ rest"
    using assms(2,3) by (cases ds) (simp_all add: list_all_iff)
  finally have "firstDigits (pre @ ds @ rest) = takeWhile isDigit (ds @ rest)"
    by (simp add: firstDigits_def)
  also have "\<dots> = ds"
    using assms(2,4) by (cases rest) (simp_all add: list_all_iff takeWhile_append)
  finally show ?thesis .
qed

text \<open>
  C9 (as amended). For a catalog of the nested shape, flattening returns the items of the
  nested traversal, each with the order
  \<open>level_number * 1000 + category_recommended_order * 100 + topic_order\<close>, a missing
  number counting as 0, stably sorted ascending by that order: items of equal order keep
  the order of the traversal. The level number is the decimal value of the first run of
  digits of the level's name, 0 when the name has no digit.
\<close>

theorem flatten_order:
  assumes "wellFormed catalog"
  shows "flattenTopics eng catalog = Inr (sort_key itemKey (traversal catalog)) \<and>
   sorted (map itemKey (sort_key itemKey (traversal catalog))) \<and>
   mset (sort_key itemKey (traversal catalog)) = mset (traversal catalog) \<and>
   (\<forall>k. filter (\<lambda>it. itemKey it = k) (sort_key itemKey (traversal catalog)) =
         filter (\<lambda>it. itemKey it = k) (traversal catalog)) \<and>
   (\<forall>it \<in> set (traversal catalog). i_order it = OrdNum (Fin (of_int (itemKey it)))) \<and>
   itemKey (itemOf lv ct tp) =
     level_number lv * 1000 + numberOr0 (jget ct (js ''recommended_order'')) * 100
       + numberOr0 (jget tp (js ''order'')) \<and>
   numberOr0 None = 0 \<and>
   (list_all (\<lambda>c. \<not> isDigit c) pre \<and> list_all isDigit ds \<and> ds \<noteq> [] \<and>
      (rest = [] \<or> \<not> isDigit (hd rest)) \<longrightarrow>
      level_number (JObj [(js ''level'', JStr (pre @ ds @ rest))]) = digitsValue ds) \<and>
   (list_all (\<lambda>c. \<not> isDigit c) name \<longrightarrow>
      level_number (JObj [(js ''level'', JStr name)]) = 0) \<and>
   digitsValue [] = 0 \<and>
   digitsValue (ds @ [d]) = digitsValue ds * 10 + int (d - 48)"
proof -
  obtain lvs where lvs: "catalog = JArr lvs" using assms
    by (cases catalog) (simp_all add: wellFormed_def)
  have "collect (levelItems eng) lvs = Inr (traversal catalog)"
    using collect_levelItems assms unfolding lvs by blast
  moreover have "sortByOrder eng (traversal catalog) = sort_key itemKey (traversal catalog)"
    using traversal_keys [OF assms] by (intro sortByOrder_exact) blast
  ultimately have c1: "flattenTopics eng catalog = Inr (sort_key itemKey (traversal catalog))"
    by (simp add: flattenTopics_def iterate_def lvs)
  have c4: "\<forall>k. filter (\<lambda>it. itemKey it = k) (sort_key itemKey (traversal catalog)) =
         filter (\<lambda>it. itemKey it = k) (traversal catalog)"
    by (simp add: sort_key_stable)
  have c5: "\<forall>it \<in> set (traversal catalog). i_order it = OrdNum (Fin (of_int (itemKey it)))"
  proof
    fix it assume "it \<in> set (traversal catalog)"
    from traversal_keys [OF assms this] show "i_order it = OrdNum (Fin (of_int (itemKey it)))"
      by (auto simp: itemKey_def)
  qed
  have c6: "itemKey (itemOf lv ct tp) =
     level_number lv * 1000 + numberOr0 (jget ct (js ''recommended_order'')) * 100
       + numberOr0 (jget tp (js ''order''))"
  proof -
    have fl: "\<lfloor>(of_int k :: rat)\<rfloor> = k" for k :: int by simp
    have "itemKey (itemOf lv ct tp) =
        orderKey (level_number lv) (numberOr0 (jget ct (js ''recommended_order'')))
          (numberOr0 (jget tp (js ''order'')))"
      unfolding itemKey_def itemOf_def by (simp only: item.select_convs ordval.case jsnum.case fl)
    then show ?thesis by (simp add: orderKey_def)
  qed
  have c9: "list_all (\<lambda>c. \<not> isDigit c) name \<longrightarrow>
      level_number (JObj [(js ''level'', JStr name)]) = 0"
  proof
    assume "list_all (\<lambda>c. \<not> isDigit c) name"
    then have dw: "dropWhile (\<lambda>c. \<not> isDigit c) name = []" by (simp add: list_all_iff)
    show "level_number (JObj [(js ''level'', JStr name)]) = 0"
      by (simp add: level_number_def levelName_def firstDigits_def digitsValue_def dw)
  qed
  have c8: "list_all (\<lambda>c. \<not> isDigit c) pre \<and> list_all isDigit ds \<and> ds \<noteq> [] \<and>
      (rest = [] \<or> \<not> isDigit (hd rest)) \<longrightarrow>
      level_number (JObj [(js ''level'', JStr (pre @ ds @ rest))]) = digitsValue ds"
    by (simp add: level_number_def levelName_def firstDigits_run)
  have c10: "digitsValue (ds @ [d]) = digitsValue ds * 10 + int (d - 48)"
    by (simp add: digitsValue_def)
  have c2: "sorted (map itemKey (sort_key itemKey (traversal catalog)))" by simp
  have c3: "mset (sort_key itemKey (traversal catalog)) = mset (traversal catalog)" by simp
  have c7: "numberOr0 None = 0" by (simp add: numberOr0_def)
  have c0: "digitsValue [] = 0" by (simp add: digitsValue_def)
  show ?thesis by (intro conjI c1 c2 c3 c4 c5 c6 c7 c8 c9 c0 c10)
qed

lemma sampleLevels_wellFormed: "wellFormed sampleLevels"
  by code_simp

lemma sampleLevels_traversal:
  "map (\<lambda>it. (i_title it, i_level it, i_order it)) (sort_key itemKey (traversal sampleLevels)) =
     [(Some (JStr (js ''Budgeting'')), js ''Level 1'', OrdNum (Fin 1000)),
      (Some (JStr (js ''Saving'')), js ''Level 1'', OrdNum (Fin 1000)),
      (Some (JStr (js ''Bonds'')), js ''Level 12'', OrdNum (Fin 12101)),
      (Some (JStr (js ''Index funds'')), js ''Level 12'', OrdNum (Fin 12102))]"
  by code_simp

theorem flatten_order_witness:
  "wellFormed sampleLevels \<and>
   map (\<lambda>it. (i_title it, i_level it, i_order it)) (projr (flattenTopics sampleEngine sampleLevels)) =
     [(Some (JStr (js ''Budgeting'')), js ''Level 1'', OrdNum (Fin 1000)),
      (Some (JStr (js ''Saving'')), js ''Level 1'', OrdNum (Fin 1000)),
      (Some (JStr (js ''Bonds'')), js ''Level 12'', OrdNum (Fin 12101)),
      (Some (JStr (js ''Index funds'')), js ''Level 12'', OrdNum (Fin 12102))] \<and>
   isl (flattenTopics sampleEngine sampleLevels) = False \<and>
   level_number (JObj [(js ''level'', JStr (js ''Level 12''))]) = 12"
proof -
  have "flattenTopics sampleEngine sampleLevels = Inr (sort_key itemKey (traversal sampleLevels))"
    using flatten_order [OF sampleLevels_wellFormed] by blast
  moreover have "level_number (JObj [(js ''level'', JStr (js ''Level 12''))]) = 12"
    by code_simp
  ultimately show ?thesis using sampleLevels_wellFormed sampleLevels_traversal by simp
qed

text \<open>
  C9 as stated fails: malformed input can fail the whole load, and can give an order
  that is neither the key nor 0. A topic that is \<open>null\<close> and a level whose name is
  the number 1 each make the load throw; the order \<open>"3"\<close>, a string, gives the
  string \<open>"11003"\<close>; and the level number 9007199254740993 is rounded to a double.
\<close>

theorem flatten_order_counterexample:
  "flattenTopics sampleEngine nullTopic = Inl TypeError \<and>
   flattenTopics sampleEngine numericLevel = Inl TypeError \<and>
   map i_order (projr (flattenTopics sampleEngine stringOrder)) = [OrdStr (js ''11003'')] \<and>
   map i_order (projr (flattenTopics sampleEngine longLevel)) =
     [OrdNum (Fin 9007199254740992000)] \<and>
   orderKey 9007199254740993 1 1 = 9007199254740993101"
  by (simp add: nullTopic_def numericLevel_def stringOrder_def longLevel_def orderKey_def
      flatten_eval toDouble_eval)

text \<open>The two catalogs of the sample runs, loaded.\<close>

lemma flatten_oneTopic: "loadCatalog eng oneTopic = Inr [budgeting]"
  by (simp add: loadCatalog_def catalogJson_def levelJson_def categoryJson_def topicJson_def
      member_def jint_def oneTopic_def topicIn_def budgeting_def candidateOfItem_def stringOf_def
      intOf_def stringsOf_def flattenTopics_def iterate_def levelItems_def categoryItems_def
      newItem_def orJson_def levelNumber_def firstDigits_def digitsValue_def isDigit_def js_def
      jsPlus_def toNumber_def sortByOrder_def orderNumber_def isFin_def sortBy_def toDouble_eval)

lemma flatten_unnamedLevel: "loadCatalog eng [unnamedLevel] = Inl TypeError"
  by (simp add: loadCatalog_def catalogJson_def levelJson_def categoryJson_def topicJson_def
      member_def jint_def unnamedLevel_def topicIn_def flattenTopics_def iterate_def
      levelItems_def categoryItems_def newItem_def orJson_def js_def)


section \<open>Properties of the coercion\<close>

lemma length_splitSteps: "length (splitSteps t) \<le> 6"
  by (simp add: splitSteps_def)

lemma last_dropWhile: "dropWhile P xs \<noteq> [] \<Longrightarrow> last (dropWhile P xs) = last xs"
  by (induction xs) (auto split: if_splits)

lemma trim_ends:
  assumes "trim s \<noteq> []"
  shows "\<not> isSpace (hd (trim s)) \<and> \<not> isSpace (last (trim s))"
proof -
  let ?u = "dropWhile isSpace s"
  let ?v = "dropWhile isSpace (rev ?u)"
  have v: "?v \<noteq> []" using assms by (simp add: trim_def)
  have u: "?u \<noteq> []"
  proof
    assume a: "?u = []"
    have "?v = []" unfolding a by simp
    then show False using v by simp
  qed
  have "last (trim s) = hd ?v" using v by (simp add: trim_def last_rev)
  moreover have "\<not> isSpace (hd ?v)" using v by (rule hd_dropWhile)
  moreover have "hd (trim s) = last ?v" using v by (simp add: trim_def hd_rev)
  moreover have "last ?v = last (rev ?u)" using v by (rule last_dropWhile)
  moreover have "last (rev ?u) = hd ?u" using u by (simp add: last_rev)
  moreover have "\<not> isSpace (hd ?u)" using u by (rule hd_dropWhile)
  ultimately show ?thesis by simp
qed

lemma set_trim: "set (trim s) \<subseteq> set s"
proof -
  have "set (trim s) \<subseteq> set (dropWhile isSpace s)"
    using set_dropWhileD [of _ isSpace "rev (dropWhile isSpace s)"] by (auto simp: trim_def)
  then show ?thesis using set_dropWhileD [of _ isSpace s] by blast
qed

lemma set_markerEnd: "markerEnd s = Some r \<Longrightarrow> set r \<subseteq> set s"
  using set_dropWhileD [of _ isDigit "tl s"]
  by (auto simp: markerEnd_def split: list.splits if_splits)

lemma set_stripMarker: "set (stripMarker l) \<subseteq> set l"
proof (cases "markerEnd (dropWhile isSpace l)")
  case None
  then show ?thesis by (simp add: stripMarker_def)
next
  case (Some r)
  then have "set r \<subseteq> set (dropWhile isSpace l)" by (rule set_markerEnd)
  then have "set (dropWhile isSpace r) \<subseteq> set l"
    using set_dropWhileD [of _ isSpace r] set_dropWhileD [of _ isSpace l] by blast
  then show ?thesis using Some by (simp add: stripMarker_def)
qed

lemma matchSep_None_head: "matchSep (c # cs) = None \<Longrightarrow> c \<noteq> 10"
  by (auto simp: matchSep_def split: if_splits)

lemma splitLines_no_newline:
  "10 \<notin> set cur \<Longrightarrow> \<forall>p \<in> set (splitLines cur s). 10 \<notin> set p"
proof (induction cur s rule: splitLines.induct)
  case (1 cur)
  then show ?case by simp
next
  case (2 cur c cs)
  show ?case
  proof (cases "matchSep (c # cs)")
    case None
    then have "10 \<notin> set (cur @ [c])" using "2.prems" matchSep_None_head by auto
    then show ?thesis using "2.IH"(1) [OF None] None by simp
  next
    case (Some rest)
    then show ?thesis using "2.IH"(2) [OF Some] "2.prems" by simp
  qed
qed

lemma splitSteps_step:
  assumes "st \<in> set (splitSteps t)"
  shows "st \<noteq> [] \<and> \<not> isSpace (hd st) \<and> \<not> isSpace (last st) \<and> 10 \<notin> set st"
proof -
  have t: "t \<noteq> []" using assms by (auto simp: splitSteps_def)
  then have "st \<in> set (filter (\<lambda>line. line \<noteq> [])
             (map (\<lambda>line. trim (stripMarker line)) (splitLines [] t)))"
    using assms by (auto simp: splitSteps_def dest: in_set_takeD)
  then obtain l where l: "l \<in> set (splitLines [] t)" "st = trim (stripMarker l)" "st \<noteq> []"
    by auto
  have "10 \<notin> set l" using splitLines_no_newline [of "[]" t] l(1) by simp
  then have "10 \<notin> set st" using l(2) set_trim set_stripMarker by blast
  then show ?thesis using l trim_ends by simp
qed

lemma stripMarker_bullet:
  assumes "list_all isSpace ws" "list_all isSpace ws'" "b = 45 \<or> b = 42 \<or> b = 8226"
    and "rest = [] \<or> \<not> isSpace (hd rest)"
  shows "stripMarker (ws @ b # ws' @ rest) = rest"
proof -
  have b: "\<not> isSpace b" "\<not> isDigit b" using assms(3) by (auto simp: isSpace_def isDigit_def)
  have 1: "dropWhile isSpace (ws @ b # ws' @ rest) = b # ws' @ rest"
    using assms(1) b by (simp add: dropWhile_append3 list_all_iff)
  have 2: "markerEnd (b # ws' @ rest) = Some (ws' @ rest)"
    using assms(3) b by (auto simp: markerEnd_def)
  have 3: "dropWhile isSpace (ws' @ rest) = rest"
    using assms(2,4) by (cases rest) (auto simp: list_all_iff dropWhile_append)
  show ?thesis by (simp add: stripMarker_def 1 2 3)
qed

lemma stripMarker_number:
  assumes "list_all isSpace ws" "list_all isSpace ws'" "ds \<noteq> []" "list_all isDigit ds"
    and "rest = [] \<or> \<not> isSpace (hd rest)"
  shows "stripMarker (ws @ ds @ 46 # ws' @ rest) = rest"
proof -
  obtain d ds' where ds: "ds = d # ds'" using assms(3) by (cases ds) auto
  have d: "isDigit d" "\<not> isSpace d" using assms(4) ds by (auto simp: isSpace_def isDigit_def)
  have 1: "dropWhile isSpace (ws @ ds @ 46 # ws' @ rest) = d # ds' @ 46 # ws' @ rest"
    using assms(1) d ds by (simp add: dropWhile_append3 list_all_iff)
  have "dropWhile isDigit (ds' @ 46 # ws' @ rest) = 46 # ws' @ rest"
    using assms(4) ds by (simp add: list_all_iff dropWhile_append3 isDigit_def)
  then have 2: "markerEnd (d # ds' @ 46 # ws' @ rest) = Some (ws' @ rest)"
    using d by (simp add: markerEnd_def)
  have 3: "dropWhile isSpace (ws' @ rest) = rest"
    using assms(2,5) by (cases rest) (auto simp: list_all_iff dropWhile_append)
  show ?thesis by (simp add: stripMarker_def 1 2 3)
qed

lemma mapE_Inr_iff:
  "mapE f xs = Inr ys \<longleftrightarrow> list_all2 (\<lambda>x y. f x = Inr y) xs ys"
proof (induction xs arbitrary: ys)
  case Nil
  show ?case by auto
next
  case (Cons x xs)
  show ?case
    by (cases "f x"; cases "mapE f xs")
       (auto simp: list_all2_Cons1 Cons.IH [symmetric])
qed

lemma mapE_total:
  "\<forall>x \<in> set xs. \<exists>y. f x = Inr y \<Longrightarrow> \<exists>ys. mapE f xs = Inr ys"
  by (induction xs) auto

lemma mapE_Inr_map:
  "\<forall>x \<in> set xs. f x = Inr (g x) \<Longrightarrow> mapE f xs = Inr (map g xs)"
  by (induction xs) auto

lemma practiceItem_coercible:
  "coercible item \<Longrightarrow> \<exists>p. practiceItem item = Inr p"
  by (cases item)
     (auto simp: coercible_def practiceItem_def practiceSteps_def
           split: option.splits json.splits if_splits)

lemma mapE_Inl:
  assumes "\<forall>x \<in> set xs. f x = Inl e \<or> (\<exists>y. f x = Inr y)" and "\<exists>x \<in> set xs. f x = Inl e"
  shows "mapE f xs = Inl e"
  using assms
proof (induction xs)
  case Nil
  then show ?case by simp
next
  case (Cons x xs)
  show ?case
  proof (cases "f x")
    case (Inl e')
    then have "e' = e" using Cons.prems(1) by auto
    then show ?thesis using Inl by simp
  next
    case (Inr y)
    then have "\<exists>x \<in> set xs. f x = Inl e" using Cons.prems(2) by auto
    then have "mapE f xs = Inl e" using Cons.IH Cons.prems(1) by simp
    then show ?thesis using Inr by simp
  qed
qed

lemma practiceItem_throws:
  "practiceItem item = Inl TypeError \<or> (\<exists>p. practiceItem item = Inr p)"
  by (cases item)
     (auto simp: practiceItem_def practiceSteps_def split: option.splits json.splits if_splits)

lemma practiceItem_not_coercible:
  "\<not> coercible item \<Longrightarrow> practiceItem item = Inl TypeError"
  by (cases item)
     (auto simp: coercible_def practiceItem_def practiceSteps_def
           split: option.splits json.splits if_splits)

lemma sourceItem_throws:
  "sourceItem entry = Inl TypeError \<or> (\<exists>s. sourceItem entry = Inr s)"
  by (cases entry) (simp_all add: sourceItem_def)

lemma practiceItem_string:
  "practiceItem (JStr s) = Inr \<lparr> p_title = JStr s, p_steps = [] \<rparr>"
  by (simp add: practiceItem_def)

lemma practiceItem_steps:
  assumes "map_of members (js ''steps'') = Some (JStr text)"
    and "practiceItem (JObj members) = Inr p"
  shows "p_steps p = map JStr (splitSteps text)"
  using assms by (auto simp: practiceItem_def practiceSteps_def)

lemma sourceItem_ok:
  "entry \<noteq> JNull \<Longrightarrow>
     sourceItem entry = Inr \<lparr> s_title = titleOrSource entry, s_url = jget entry (js ''url'') \<rparr>"
  by (cases entry) (simp_all add: sourceItem_def titleOrSource_def)


text \<open>
  C6 (as amended). When no entry of \<open>practice\<close> is \<open>null\<close> and the \<open>steps\<close> of each
  is an array, a string, falsy or absent, \<open>normalizePractice\<close> returns one item per
  entry: a plain string becomes \<open>{title: that string, steps: []}\<close>, and an object whose
  \<open>steps\<close> is a string gets the steps that \<open>splitSteps\<close> makes of it. These are at
  most 6, none is empty, none begins or ends with white space, none holds a line feed,
  and a leading bullet (hyphen, asterisk, U+2022) or numbering (digits and a full stop),
  with the white space around it, is stripped from a line. When no entry of \<open>sources\<close>
  is \<open>null\<close>, \<open>normalizeSources\<close> returns the first 6 entries as \<open>{title, url}\<close>,
  the title being \<open>"Source"\<close> when the entry has none. In every other case, that is
  with a \<open>null\<close> entry or with \<open>steps\<close> truthy and neither an array nor a string,
  the function throws a \<open>TypeError\<close>.
\<close>

theorem practice_sources_normalization:
  "(list_all coercible items \<longrightarrow>
      (\<exists>out. normalizePractice (Some (JArr items)) = Inr out \<and>
         list_all2 (\<lambda>item p.
             (\<forall>s. item = JStr s \<longrightarrow> p = \<lparr> p_title = JStr s, p_steps = [] \<rparr>) \<and>
             (\<forall>members text.
                 item = JObj members \<and> map_of members (js ''steps'') = Some (JStr text) \<longrightarrow>
                 p_steps p = map JStr (splitSteps text)))
           items out)) \<and>
   length (splitSteps text) \<le> 6 \<and>
   (\<forall>step \<in> set (splitSteps text).
      step \<noteq> [] \<and> \<not> isSpace (hd step) \<and> \<not> isSpace (last step) \<and> 10 \<notin> set step) \<and>
   (list_all isSpace ws \<and> list_all isSpace ws' \<and> (b = 45 \<or> b = 42 \<or> b = 8226) \<and>
    (rest = [] \<or> \<not> isSpace (hd rest)) \<longrightarrow>
      stripMarker (ws @ b # ws' @ rest) = rest) \<and>
   (list_all isSpace ws \<and> list_all isSpace ws' \<and> ds \<noteq> [] \<and> list_all isDigit ds \<and>
    (rest = [] \<or> \<not> isSpace (hd rest)) \<longrightarrow>
      stripMarker (ws @ ds @ 46 # ws' @ rest) = rest) \<and>
   (list_all (\<lambda>entry. entry \<noteq> JNull) entries \<longrightarrow>
      normalizeSources (Some (JArr entries)) =
        Inr (take 6 (map (\<lambda>entry. \<lparr> s_title = titleOrSource entry,
                                      s_url = jget entry (js ''url'') \<rparr>) entries)) \<and>
      length (take 6 entries) \<le> 6) \<and>
   (jget entry (js ''title'') = None \<longrightarrow> titleOrSource entry = JStr (js ''Source'')) \<and>
   (\<not> list_all coercible items \<longrightarrow> normalizePractice (Some (JArr items)) = Inl TypeError) \<and>
   (\<not> list_all (\<lambda>entry. entry \<noteq> JNull) entries \<longrightarrow>
      normalizeSources (Some (JArr entries)) = Inl TypeError)"
proof -
  have practice: "list_all coercible items \<longrightarrow>
      (\<exists>out. normalizePractice (Some (JArr items)) = Inr out \<and>
         list_all2 (\<lambda>item p.
             (\<forall>s. item = JStr s \<longrightarrow> p = \<lparr> p_title = JStr s, p_steps = [] \<rparr>) \<and>
             (\<forall>members text.
                 item = JObj members \<and> map_of members (js ''steps'') = Some (JStr text) \<longrightarrow>
                 p_steps p = map JStr (splitSteps text)))
           items out)"
  proof
    assume "list_all coercible items"
    then have "\<forall>x \<in> set items. \<exists>y. practiceItem x = Inr y"
      by (simp add: list_all_iff practiceItem_coercible)
    then obtain out where out: "mapE practiceItem items = Inr out"
      using mapE_total by blast
    then have "list_all2 (\<lambda>x y. practiceItem x = Inr y) items out"
      by (simp add: mapE_Inr_iff)
    then have "list_all2 (\<lambda>item p.
             (\<forall>s. item = JStr s \<longrightarrow> p = \<lparr> p_title = JStr s, p_steps = [] \<rparr>) \<and>
             (\<forall>members text.
                 item = JObj members \<and> map_of members (js ''steps'') = Some (JStr text) \<longrightarrow>
                 p_steps p = map JStr (splitSteps text)))
           items out"
    proof (rule list_all2_mono)
      fix item p
      assume "practiceItem item = Inr p"
      then show "(\<forall>s. item = JStr s \<longrightarrow> p = \<lparr> p_title = JStr s, p_steps = [] \<rparr>) \<and>
             (\<forall>members text.
                 item = JObj members \<and> map_of members (js ''steps'') = Some (JStr text) \<longrightarrow>
                 p_steps p = map JStr (splitSteps text))"
        using practiceItem_string practiceItem_steps by auto
    qed
    then show "\<exists>out. normalizePractice (Some (JArr items)) = Inr out \<and>
         list_all2 (\<lambda>item p.
             (\<forall>s. item = JStr s \<longrightarrow> p = \<lparr> p_title = JStr s, p_steps = [] \<rparr>) \<and>
             (\<forall>members text.
                 item = JObj members \<and> map_of members (js ''steps'') = Some (JStr text) \<longrightarrow>
                 p_steps p = map JStr (splitSteps text)))
           items out"
      using out by (simp add: normalizePractice_def)
  qed
  have sources: "list_all (\<lambda>entry. entry \<noteq> JNull) entries \<longrightarrow>
      normalizeSources (Some (JArr entries)) =
        Inr (take 6 (map (\<lambda>entry. \<lparr> s_title = titleOrSource entry,
                                      s_url = jget entry (js ''url'') \<rparr>) entries)) \<and>
      length (take 6 entries) \<le> 6"
  proof
    assume "list_all (\<lambda>entry. entry \<noteq> JNull) entries"
    then have "mapE sourceItem entries =
        Inr (map (\<lambda>entry. \<lparr> s_title = titleOrSource entry,
                              s_url = jget entry (js ''url'') \<rparr>) entries)"
      by (intro mapE_Inr_map) (simp add: list_all_iff sourceItem_ok)
    then show "normalizeSources (Some (JArr entries)) =
        Inr (take 6 (map (\<lambda>entry. \<lparr> s_title = titleOrSource entry,
                                      s_url = jget entry (js ''url'') \<rparr>) entries)) \<and>
      length (take 6 entries) \<le> 6"
      by (simp add: normalizeSources_def)
  qed
  have steps: "\<forall>step \<in> set (splitSteps text).
      step \<noteq> [] \<and> \<not> isSpace (hd step) \<and> \<not> isSpace (last step) \<and> 10 \<notin> set step"
    using splitSteps_step by blast
  have bullet: "list_all isSpace ws \<and> list_all isSpace ws' \<and> (b = 45 \<or> b = 42 \<or> b = 8226) \<and>
    (rest = [] \<or> \<not> isSpace (hd rest)) \<longrightarrow>
      stripMarker (ws @ b # ws' @ rest) = rest"
    using stripMarker_bullet by blast
  have number: "list_all isSpace ws \<and> list_all isSpace ws' \<and> ds \<noteq> [] \<and> list_all isDigit ds \<and>
    (rest = [] \<or> \<not> isSpace (hd rest)) \<longrightarrow>
      stripMarker (ws @ ds @ 46 # ws' @ rest) = rest"
    using stripMarker_number by blast
  have title: "jget entry (js ''title'') = None \<longrightarrow> titleOrSource entry = JStr (js ''Source'')"
    by (simp add: titleOrSource_def)
  have throws: "\<not> list_all coercible items \<longrightarrow>
      normalizePractice (Some (JArr items)) = Inl TypeError"
  proof
    assume "\<not> list_all coercible items"
    then have "\<exists>x \<in> set items. practiceItem x = Inl TypeError"
      using practiceItem_not_coercible by (auto simp: list_all_iff)
    then have "mapE practiceItem items = Inl TypeError"
      using practiceItem_throws by (intro mapE_Inl) auto
    then show "normalizePractice (Some (JArr items)) = Inl TypeError"
      by (simp add: normalizePractice_def)
  qed
  have throws': "\<not> list_all (\<lambda>entry. entry \<noteq> JNull) entries \<longrightarrow>
      normalizeSources (Some (JArr entries)) = Inl TypeError"
  proof
    assume "\<not> list_all (\<lambda>entry. entry \<noteq> JNull) entries"
    then have "JNull \<in> set entries" by (auto simp: list_all_iff)
    moreover have "sourceItem JNull = Inl TypeError" by (simp add: sourceItem_def)
    ultimately have "\<exists>x \<in> set entries. sourceItem x = Inl TypeError" by blast
    then have "mapE sourceItem entries = Inl TypeError"
      using sourceItem_throws by (intro mapE_Inl) auto
    then show "normalizeSources (Some (JArr entries)) = Inl TypeError"
      by (simp add: normalizeSources_def)
  qed
  show ?thesis
    using practice length_splitSteps [of "text"] steps bullet number sources title throws throws'
    by (intro conjI)
qed

theorem practice_sources_normalization_witness:
  "normalizePractice (Some (JArr samplePractice)) =
     Inr [\<lparr> p_title = JStr (js ''Track spending''), p_steps = [] \<rparr>,
          \<lparr> p_title = JStr (js ''Plan''),
            p_steps = [JStr (js ''Save''), JStr (js ''Invest''), JStr (js ''Review'')] \<rparr>] \<and>
   stripMarker (js ''  * x'') = js ''x'' \<and>
   stripMarker (js ''  12. x'') = js ''x'' \<and>
   normalizeSources (Some (JArr sampleSources)) =
     Inr [\<lparr> s_title = JStr (js ''Source''), s_url = Some (JStr (js ''https://a.example'')) \<rparr>,
          \<lparr> s_title = JStr (js ''Book''), s_url = Some (JStr (js ''https://b.example'')) \<rparr>]"
proof -
  note facts = practice_sources_normalization [where items = samplePractice and entries = sampleSources and rest = "js ''x''"
       and ws' = "js '' ''" and b = 42 and ws = "js ''  ''" and ds = "js ''12''"]
  have c: "list_all coercible samplePractice"
    by (simp add: samplePractice_def coercible_def)
  have n: "list_all (\<lambda>entry. entry \<noteq> JNull) sampleSources"
    by (simp add: sampleSources_def)
  have sp: "list_all isSpace (js ''  '')" "list_all isSpace (js '' '')"
    "js ''x'' = [] \<or> \<not> isSpace (hd (js ''x''))" "js ''12'' \<noteq> []" "list_all isDigit (js ''12'')"
    by (simp_all add: js_def isSpace_def isDigit_def)
  have "stripMarker (js ''  '' @ 42 # js '' '' @ js ''x'') = js ''x''"
    using facts sp by blast
  then have 1: "stripMarker (js ''  * x'') = js ''x''" by (simp add: js_def)
  have "stripMarker (js ''  '' @ js ''12'' @ 46 # js '' '' @ js ''x'') = js ''x''"
    using facts sp by blast
  then have "stripMarker (js ''  12. x'') = js ''x''" by (simp add: js_def)
  moreover have "normalizeSources (Some (JArr sampleSources)) =
        Inr (take 6 (map (\<lambda>entry. \<lparr> s_title = titleOrSource entry,
                                      s_url = jget entry (js ''url'') \<rparr>) sampleSources))"
    using facts n by blast
  then have "normalizeSources (Some (JArr sampleSources)) =
     Inr [\<lparr> s_title = JStr (js ''Source''), s_url = Some (JStr (js ''https://a.example'')) \<rparr>,
          \<lparr> s_title = JStr (js ''Book''), s_url = Some (JStr (js ''https://b.example'')) \<rparr>]"
    by (simp add: sampleSources_def titleOrSource_def js_def)
  moreover have "normalizePractice (Some (JArr samplePractice)) =
     Inr [\<lparr> p_title = JStr (js ''Track spending''), p_steps = [] \<rparr>,
          \<lparr> p_title = JStr (js ''Plan''),
            p_steps = [JStr (js ''Save''), JStr (js ''Invest''), JStr (js ''Review'')] \<rparr>]"
    by (simp add: samplePractice_def normalizePractice_def practiceItem_def practiceSteps_def
        splitSteps_def stripMarker_def markerEnd_def trim_def matchSep_def isSpace_def
        isDigit_def js_def)
  ultimately show ?thesis using 1 by simp
qed

text \<open>
  C6 as stated fails for a draft with a \<open>null\<close> entry: reading \<open>title\<close> of \<open>null\<close>
  throws, so the sources are not normalized and the plain string before the \<open>null\<close>
  is not promoted.
\<close>

theorem practice_sources_normalization_counterexample:
  "normalizeSources (Some (JArr [JNull])) = Inl TypeError \<and>
   normalizePractice (Some (JArr [JStr (js ''Track spending''), JNull])) = Inl TypeError"
  by (simp add: normalizeSources_def sourceItem_def normalizePractice_def practiceItem_def)


section \<open>Properties of the pipeline and of a run\<close>

lemma generateLesson_revise:
  assumes "llmStage jp e reply n = Inr blueprint"
    and "llmStage jp e reply (n + 1) = Inr draft"
    and "llmStage jp e reply (n + 2) = Inr critique"
    and "jget critique (js ''score'') = Some (JNum score)"
  shows "generateLesson jp nb e reply n =
     (if score < 9
      then \<lparr> a_result = llmStage jp e reply (n + 3),
             a_stages = [Blueprint, Draft, Critique, Revise] \<rparr>
      else \<lparr> a_result = Inr draft, a_stages = [Blueprint, Draft, Critique] \<rparr>)"
proof -
  have "critique \<noteq> JNull" using assms(4) by auto
  then have "scoreBelow9 nb critique = Inr (score < 9)"
    using assms(4) by (cases critique) (simp_all add: scoreBelow9_def)
  then show ?thesis using assms(1-3) by (simp add: generateLesson_def)
qed

text \<open>
  C5. In a run of the pipeline whose first three stages have succeeded and whose critique
  carries a numeric score, the revise stage is invoked if and only if the score is below
  9. With a score of at least 9 the final content is the original draft; with a score
  below 9 it is what the revise stage returns, the revised draft when that stage
  succeeds.
\<close>

theorem revise_gating:
  assumes "llmStage jp e reply n = Inr blueprint"
    and "llmStage jp e reply (n + 1) = Inr draft"
    and "llmStage jp e reply (n + 2) = Inr critique"
    and "jget critique (js ''score'') = Some (JNum score)"
  shows "(Revise \<in> set (a_stages (generateLesson jp nb e reply n)) \<longleftrightarrow> score < 9) \<and>
         (9 \<le> score \<longrightarrow> a_result (generateLesson jp nb e reply n) = Inr draft) \<and>
         (score < 9 \<longrightarrow>
            a_result (generateLesson jp nb e reply n) = llmStage jp e reply (n + 3)) \<and>
         (score < 9 \<and> llmStage jp e reply (n + 3) = Inr revised \<longrightarrow>
            a_result (generateLesson jp nb e reply n) = Inr revised)"
  using generateLesson_revise [OF assms, of nb] by auto

lemma sample_fence: \<open>fenceInner (js ''```json{"topic":"draft"}```'') = Some (js ''{"topic":"draft"}'')\<close>
  by (simp add: fenceInner_def js_def)

lemma sample_stages:
  \<open>llmStage sampleParse sampleEnv (sampleReplies c) 0 = Inr (JObj [])\<close>
  \<open>llmStage sampleParse sampleEnv (sampleReplies c) (0 + 1) = Inr (JObj [(js ''topic'', JStr (js ''draft''))])\<close>
  \<open>llmStage sampleParse sampleEnv (sampleReplies (js ''{"score":8}'')) (0 + 2) = Inr (JObj [(js ''score'', JNum 8)])\<close>
  \<open>llmStage sampleParse sampleEnv (sampleReplies (js ''{"score":9}'')) (0 + 2) = Inr (JObj [(js ''score'', JNum 9)])\<close>
  \<open>llmStage sampleParse sampleEnv (sampleReplies c) (0 + 3) = Inr (JObj [(js ''topic'', JStr (js ''revised''))])\<close>
  by (simp_all add: llmStage_def callLLM_def apiKey_def sampleEnv_def sampleReplies_def
      parseJSON_def sampleParse_def fenceInner_def js_def)

theorem revise_gating_witness:
  \<open>Revise \<in> set (a_stages (generateLesson sampleParse (\<lambda>v. False) sampleEnv
       (sampleReplies (js ''{"score":8}'')) 0)) \<and>
   a_result (generateLesson sampleParse (\<lambda>v. False) sampleEnv
       (sampleReplies (js ''{"score":8}'')) 0) = Inr (JObj [(js ''topic'', JStr (js ''revised''))]) \<and>
   Revise \<notin> set (a_stages (generateLesson sampleParse (\<lambda>v. False) sampleEnv
       (sampleReplies (js ''{"score":9}'')) 0)) \<and>
   a_result (generateLesson sampleParse (\<lambda>v. False) sampleEnv
       (sampleReplies (js ''{"score":9}'')) 0) = Inr (JObj [(js ''topic'', JStr (js ''draft''))])\<close>
proof -
  have s8: "jget (JObj [(js ''score'', JNum 8)]) (js ''score'') = Some (JNum 8)"
    and s9: "jget (JObj [(js ''score'', JNum 9)]) (js ''score'') = Some (JNum 9)"
    by simp_all
  note low = revise_gating [OF sample_stages(1) sample_stages(2) sample_stages(3) s8,
      where revised = "JObj [(js ''topic'', JStr (js ''revised''))]" and nb = "\<lambda>v. False"]
  note high = revise_gating [OF sample_stages(1) sample_stages(2) sample_stages(4) s9,
      where nb = "\<lambda>v. False"]
  have "(8::rat) < 9" "(9::rat) \<le> 9" "\<not> (9::rat) < 9" by simp_all
  then show ?thesis using low high sample_stages(5) by blast
qed

lemma afterFirst_sound:
  "afterFirst pat s = Some r \<Longrightarrow> \<exists>pre. s = pre @ pat @ r"
proof (induction s)
  case Nil
  then show ?case by (auto split: if_splits)
next
  case (Cons c cs)
  show ?case
  proof (cases "take (length pat) (c # cs) = pat")
    case True
    then have "r = drop (length pat) (c # cs)" using Cons.prems by simp
    then have "c # cs = [] @ pat @ r" using True by (metis append_Nil append_take_drop_id)
    then show ?thesis by blast
  next
    case False
    then have "afterFirst pat cs = Some r" using Cons.prems by simp
    then obtain pre where "cs = pre @ pat @ r" using Cons.IH by blast
    then have "c # cs = (c # pre) @ pat @ r" by simp
    then show ?thesis by blast
  qed
qed

lemma beforeFirst_sound:
  "beforeFirst pat s = Some b \<Longrightarrow> \<exists>post. s = b @ pat @ post"
proof (induction s arbitrary: b)
  case Nil
  then show ?case by (auto split: if_splits)
next
  case (Cons c cs)
  show ?case
  proof (cases "take (length pat) (c # cs) = pat")
    case True
    then have "b = []" using Cons.prems by simp
    then have "c # cs = b @ pat @ drop (length pat) (c # cs)"
      using True by (metis append_Nil append_take_drop_id)
    then show ?thesis by blast
  next
    case False
    then obtain b' where b': "beforeFirst pat cs = Some b'" "b = c # b'"
      using Cons.prems by auto
    then obtain post where "cs = b' @ pat @ post" using Cons.IH by blast
    then have "c # cs = b @ pat @ post" using b' by simp
    then show ?thesis by blast
  qed
qed

lemma fenceInner_sound:
  assumes "fenceInner raw = Some inner"
  shows "\<exists>pre post. raw = pre @ js ''```json'' @ inner @ js ''```'' @ post"
proof -
  obtain rest where rest: "afterFirst (js ''```json'') raw = Some rest"
    and inner: "beforeFirst (js ''```'') rest = Some inner"
    using assms by (auto simp: fenceInner_def split: option.splits)
  obtain pre where "raw = pre @ js ''```json'' @ rest"
    using afterFirst_sound [OF rest] by blast
  moreover obtain post where "rest = inner @ js ''```'' @ post"
    using beforeFirst_sound [OF inner] by blast
  ultimately show ?thesis by blast
qed

text \<open>A pattern that starts with a backquote is not found in text without one.\<close>

lemma afterFirst_skip:
  assumes "96 \<notin> set pre" and "hd pat = 96" and "pat \<noteq> []"
  shows "afterFirst pat (pre @ pat @ rest) = Some rest"
  using assms(1)
proof (induction pre)
  case Nil
  then show ?case using assms(3) by (cases pat) simp_all
next
  case (Cons c pre)
  have "take (length pat) (c # pre @ pat @ rest) \<noteq> pat"
  proof
    assume "take (length pat) (c # pre @ pat @ rest) = pat"
    then have "hd pat = c" using assms(3) by (cases pat) auto
    then show False using Cons.prems assms(2) by simp
  qed
  then show ?case using Cons by simp
qed

lemma beforeFirst_skip:
  assumes "96 \<notin> set inner" and "hd pat = 96" and "pat \<noteq> []"
  shows "beforeFirst pat (inner @ pat @ post) = Some inner"
  using assms(1)
proof (induction inner)
  case Nil
  then show ?case using assms(3) by (cases pat) simp_all
next
  case (Cons c inner)
  have "take (length pat) (c # inner @ pat @ post) \<noteq> pat"
  proof
    assume "take (length pat) (c # inner @ pat @ post) = pat"
    then have "hd pat = c" using assms(3) by (cases pat) auto
    then show False using Cons.prems assms(2) by simp
  qed
  then show ?case using Cons by simp
qed

lemma fenceInner_exact:
  assumes "96 \<notin> set pre" and "96 \<notin> set inner"
  shows "fenceInner (pre @ js ''```json'' @ inner @ js ''```'' @ post) = Some inner"
proof -
  have "afterFirst (js ''```json'') (pre @ js ''```json'' @ (inner @ js ''```'' @ post)) =
      Some (inner @ js ''```'' @ post)"
    using assms(1) by (intro afterFirst_skip) (simp_all add: js_def)
  moreover have "beforeFirst (js ''```'') (inner @ js ''```'' @ post) = Some inner"
    using assms(2) by (intro beforeFirst_skip) (simp_all add: js_def)
  ultimately show ?thesis by (simp add: fenceInner_def)
qed

lemma generateLesson_all_stages:
  assumes "a_result (generateLesson jp nb e reply n) = Inr content"
    and "i < length (a_stages (generateLesson jp nb e reply n))"
  shows "\<exists>v. llmStage jp e reply (n + i) = Inr v"
proof -
  have "i = 0 \<or> i = 1 \<or> i = 2 \<or> i = 3 \<or> 4 \<le> i" by arith
  then show ?thesis
    using assms
    by (auto simp: generateLesson_def split: sum.splits bool.splits)
qed

lemma main_failure_writes_nothing:
  assumes "exitCode (main jp dp coll nb eng w) \<noteq> 0"
  shows "dailyOut (main jp dp coll nb eng w) = dailyFile w \<and>
         archiveOut (main jp dp coll nb eng w) = archiveFiles w"
  using assms
  by (auto simp: main_def ended_def Let_def split: sum.splits option.splits prod.splits if_splits list.splits)

lemma retryLoop_bounds:
  "attempts \<le> maxRetries (dryRun w) \<Longrightarrow>
   \<exists>m. l_attempts (retryLoop jp nb w c attempts n) = Suc m \<and>
       l_delays (retryLoop jp nb w c attempts n) = map backoff [attempts ..< attempts + m] \<and>
       attempts + m \<le> maxRetries (dryRun w)"
proof (induction jp nb w c attempts n rule: retryLoop.induct)
  case (1 jp nb w c attempts n)
  note le = "1.prems"
  obtain r k where t: "tryAttempt jp nb w c n = (r, k)" by (cases "tryAttempt jp nb w c n")
  show ?case
  proof (cases r)
    case (Inr lesson)
    then show ?thesis using le t by (subst (1 2) retryLoop.simps) simp
  next
    case (Inl err)
    show ?thesis
    proof (cases "attempts + 1 > maxRetries (dryRun w)")
      case True
      then show ?thesis using le t Inl
        by (subst (1 2) retryLoop.simps) simp
    next
      case False
      then have le': "attempts + 1 \<le> maxRetries (dryRun w)" by simp
      obtain m where m: "l_attempts (retryLoop jp nb w c (attempts + 1) (n + k)) = Suc m"
        "l_delays (retryLoop jp nb w c (attempts + 1) (n + k)) =
           map backoff [attempts + 1 ..< attempts + 1 + m]"
        "attempts + 1 + m \<le> maxRetries (dryRun w)"
        using "1.IH" [OF le t [symmetric] Inl False le'] by blast
      have unfold: "retryLoop jp nb w c attempts n =
          \<lparr> l_lesson = l_lesson (retryLoop jp nb w c (attempts + 1) (n + k)),
            l_attempts = 1 + l_attempts (retryLoop jp nb w c (attempts + 1) (n + k)),
            l_requests = k + l_requests (retryLoop jp nb w c (attempts + 1) (n + k)),
            l_delays = backoff attempts # l_delays (retryLoop jp nb w c (attempts + 1) (n + k)) \<rparr>"
        using le False t Inl by (subst retryLoop.simps) (simp add: Let_def)
      have "[attempts ..< attempts + Suc m] = attempts # [attempts + 1 ..< attempts + 1 + m]"
        by (simp add: upt_rec [of attempts])
      then have "l_attempts (retryLoop jp nb w c attempts n) = Suc (Suc m) \<and>
          l_delays (retryLoop jp nb w c attempts n) = map backoff [attempts ..< attempts + Suc m] \<and>
          attempts + Suc m \<le> maxRetries (dryRun w)"
        unfolding unfold using m by simp
      then show ?thesis by blast
    qed
  qed
qed

lemma retryLoop_all_fail:
  "\<forall>n. isl (fst (tryAttempt jp nb w c n)) \<Longrightarrow>
   attempts \<le> maxRetries (dryRun w) \<Longrightarrow>
     l_lesson (retryLoop jp nb w c attempts n) = None \<and>
     length (l_delays (retryLoop jp nb w c attempts n)) = maxRetries (dryRun w) - attempts"
proof (induction jp nb w c attempts n rule: retryLoop.induct)
  case (1 jp nb w c attempts n)
  note fail = "1.prems"(1)
  note le = "1.prems"(2)
  obtain err k where t: "tryAttempt jp nb w c n = (Inl err, k)"
    using fail [rule_format, of n] by (cases "tryAttempt jp nb w c n") (auto simp: isl_def)
  show ?case
  proof (cases "attempts + 1 > maxRetries (dryRun w)")
    case True
    then show ?thesis using le t
      by (subst (1 2) retryLoop.simps) simp
  next
    case False
    then have le': "attempts + 1 \<le> maxRetries (dryRun w)" by simp
    note IH = "1.IH" [OF le t [symmetric] refl False fail le']
    have unfold: "retryLoop jp nb w c attempts n =
          \<lparr> l_lesson = l_lesson (retryLoop jp nb w c (attempts + 1) (n + k)),
            l_attempts = 1 + l_attempts (retryLoop jp nb w c (attempts + 1) (n + k)),
            l_requests = k + l_requests (retryLoop jp nb w c (attempts + 1) (n + k)),
            l_delays = backoff attempts # l_delays (retryLoop jp nb w c (attempts + 1) (n + k)) \<rparr>"
      using le False t by (subst retryLoop.simps) (simp add: Let_def)
    show ?thesis
      unfolding unfold using IH le' by simp
  qed
qed

lemma retryLoop_no_requests:
  "\<forall>n. snd (tryAttempt jp nb w c n) = 0 \<Longrightarrow> l_requests (retryLoop jp nb w c attempts n) = 0"
proof (induction jp nb w c attempts n rule: retryLoop.induct)
  case (1 jp nb w c attempts n)
  note none = "1.prems"
  obtain r where t: "tryAttempt jp nb w c n = (r, 0)"
    using none [rule_format, of n] by (cases "tryAttempt jp nb w c n") auto
  show ?case
  proof (cases "attempts \<le> maxRetries (dryRun w)")
    case False
    then show ?thesis by (subst retryLoop.simps) simp
  next
    case le: True
    show ?thesis
    proof (cases r)
      case (Inr lesson)
      then show ?thesis using le t by (subst retryLoop.simps) simp
    next
      case (Inl err)
      show ?thesis
      proof (cases "attempts + 1 > maxRetries (dryRun w)")
        case True
        then show ?thesis using le t Inl by (subst retryLoop.simps) simp
      next
        case False
        note IH = "1.IH" [OF le t [symmetric] Inl False none]
        show ?thesis using le False t Inl IH
          by (subst retryLoop.simps) (simp add: Let_def)
      qed
    qed
  qed
qed

lemma retryLoop_delays:
  assumes "attempts \<le> maxRetries (dryRun w)"
    and "length (l_delays (retryLoop jp nb w c attempts n)) = m"
  shows "l_attempts (retryLoop jp nb w c attempts n) = Suc m \<and>
         l_delays (retryLoop jp nb w c attempts n) = map backoff [attempts ..< attempts + m]"
  using retryLoop_bounds [OF assms(1), of jp nb c n] assms(2) by auto

lemma no_key_attempt:
  assumes "\<not> truthyStr (apiKey (environment w))"
  shows "tryAttempt jp nb w c n = (Inl MissingKey, 0)"
  using assms
  by (simp add: tryAttempt_def generateLesson_def llmStage_def callLLM_def requestsOf_def)

text \<open>A run that reaches the loop and whose every attempt fails.\<close>

lemma main_all_fail:
  assumes "loadCatalog eng (topicsFile w) = Inr cs"
    and "\<not> (generatedToday w (dailyFile w) \<and> \<not> dryRun w)"
    and "pickCandidate dp (sortCandidates eng) cs (dailyFile w) = Some c"
    and "\<forall>n. isl (fst (tryAttempt jp nb w c n))"
  shows "main jp dp coll nb eng w =
     \<lparr> exitCode = 1, pipelineRuns = maxRetries (dryRun w) + 1,
       requestsSent = l_requests (retryLoop jp nb w c 0 0),
       delays = map backoff [0 ..< maxRetries (dryRun w)],
       dailyOut = dailyFile w, archiveOut = archiveFiles w, printed = None \<rparr>"
proof -
  have fail: "l_lesson (retryLoop jp nb w c 0 0) = None"
    "length (l_delays (retryLoop jp nb w c 0 0)) = maxRetries (dryRun w)"
    using retryLoop_all_fail [OF assms(4), of 0 0] by simp_all
  have "l_attempts (retryLoop jp nb w c 0 0) = Suc (maxRetries (dryRun w))"
    "l_delays (retryLoop jp nb w c 0 0) = map backoff [0 ..< maxRetries (dryRun w)]"
    using retryLoop_delays [OF _ fail(2)] by simp_all
  then show ?thesis
    using assms(1,2,3) fail(1) by (auto simp: main_def Let_def)
qed

text \<open>Every run: the attempts it makes and the delays between them.\<close>

lemma main_attempts:
  "\<exists>m. pipelineRuns (main jp dp coll nb eng w) \<le> Suc m \<and>
       delays (main jp dp coll nb eng w) = map backoff [0 ..< pipelineRuns (main jp dp coll nb eng w) - 1] \<and>
       m \<le> maxRetries (dryRun w)"
proof -
  have ended: "\<And>code. pipelineRuns (ended w code) = 0 \<and> delays (ended w code) = []"
    by (simp add: ended_def)
  show ?thesis
  proof (cases "loadCatalog eng (topicsFile w)")
    case (Inl err)
    then show ?thesis using ended by (auto simp: main_def)
  next
    case (Inr cs)
    show ?thesis
    proof (cases "generatedToday w (dailyFile w) \<and> \<not> dryRun w")
      case True
      then show ?thesis using Inr ended by (auto simp: main_def)
    next
      case False
      show ?thesis
      proof (cases "pickCandidate dp (sortCandidates eng) cs (dailyFile w)")
        case None
        then show ?thesis using Inr False ended by (auto simp: main_def)
      next
        case (Some c)
        obtain m where m: "l_attempts (retryLoop jp nb w c 0 0) = Suc m"
          "l_delays (retryLoop jp nb w c 0 0) = map backoff [0 ..< 0 + m]"
          "0 + m \<le> maxRetries (dryRun w)"
          using retryLoop_bounds [of 0 w jp nb c 0] by auto
        have "pipelineRuns (main jp dp coll nb eng w) = Suc m \<and>
            delays (main jp dp coll nb eng w) = map backoff [0 ..< m]"
          using Inr False Some m(1,2)
          by (cases "l_lesson (retryLoop jp nb w c 0 0)")
             (auto simp: main_def Let_def split: prod.splits)
        then show ?thesis using m(3) by auto
      qed
    qed
  qed
qed

lemma pick_budgeting: "pickCandidate dp es [budgeting] [] = Some budgeting"
  by (simp add: pickCandidate_def summarizeHistory_def has_def budgeting_def)

lemma pick_budgeting_used:
  "pickCandidate dp es [budgeting] [datedEntry d] = Some budgeting"
  by (simp add: pickCandidate_def summarizeHistory_def setEntry_def has_def budgeting_def
      datedEntry_def lessonOn_def)

text \<open>
  C4 (as amended). When the newest entry of the history has today's date, a run that is
  not a dry run invokes no stage of the pipeline, sends no request, sleeps no delay and
  leaves the history file and the archive unchanged; its exit code is 0 when the catalog
  loads, and 1 when \<open>flattenTopics\<close> throws, which happens before the guard.
\<close>

theorem same_day_guard:
  assumes "dailyFile w = newest # older"
    and "e_date newest = DateStr (todayStr w)"
    and "\<not> dryRun w"
  shows "pipelineRuns (main jp dp coll nb eng w) = 0 \<and>
         requestsSent (main jp dp coll nb eng w) = 0 \<and>
         delays (main jp dp coll nb eng w) = [] \<and>
         dailyOut (main jp dp coll nb eng w) = dailyFile w \<and>
         archiveOut (main jp dp coll nb eng w) = archiveFiles w \<and>
         exitCode (main jp dp coll nb eng w) = (if isl (loadCatalog eng (topicsFile w)) then 1 else 0)"
proof -
  have "generatedToday w (dailyFile w)"
    using assms(1,2) by (simp add: generatedToday_def)
  then have "main jp dp coll nb eng w =
      ended w (if isl (loadCatalog eng (topicsFile w)) then 1 else 0)"
    using assms(3) by (cases "loadCatalog eng (topicsFile w)") (simp_all add: main_def)
  then show ?thesis by (simp add: ended_def)
qed

theorem same_day_guard_witness:
  "dailyFile (sampleWorld \<lparr> dailyFile := [datedEntry ''2024-03-05''] \<rparr>) =
     [datedEntry ''2024-03-05''] \<and>
   e_date (datedEntry ''2024-03-05'') = DateStr (todayStr sampleWorld) \<and>
   exitCode (main sampleParse januaryDates codeUnits (\<lambda>v. False) sampleEngine
     (sampleWorld \<lparr> dailyFile := [datedEntry ''2024-03-05''] \<rparr>)) = 0 \<and>
   requestsSent (main sampleParse januaryDates codeUnits (\<lambda>v. False) sampleEngine
     (sampleWorld \<lparr> dailyFile := [datedEntry ''2024-03-05''] \<rparr>)) = 0 \<and>
   dailyOut (main sampleParse januaryDates codeUnits (\<lambda>v. False) sampleEngine
     (sampleWorld \<lparr> dailyFile := [datedEntry ''2024-03-05''] \<rparr>)) = [datedEntry ''2024-03-05'']"
proof -
  let ?w = "sampleWorld \<lparr> dailyFile := [datedEntry ''2024-03-05''] \<rparr>"
  have a: "dailyFile ?w = datedEntry ''2024-03-05'' # []" by simp
  have b: "e_date (datedEntry ''2024-03-05'') = DateStr (todayStr ?w)"
    by (simp add: datedEntry_def lessonOn_def sampleWorld_def)
  have c: "\<not> dryRun ?w" by (simp add: sampleWorld_def)
  have d: "loadCatalog sampleEngine (topicsFile ?w) = Inr [budgeting]"
    by (simp add: sampleWorld_def flatten_oneTopic)
  show ?thesis
    using same_day_guard [OF a b c, of sampleParse januaryDates codeUnits "\<lambda>v. False"] b d
    by (simp add: sampleWorld_def)
qed

text \<open>
  C4 as stated fails: the catalog is loaded before the guard, so with a catalog whose
  level has a topic but no name the run exits with code 1 although the newest entry has
  today's date.
\<close>

theorem same_day_guard_counterexample:
  "e_date (hd (dailyFile (sampleWorld \<lparr> dailyFile := [datedEntry ''2024-03-05''],
                                         topicsFile := [unnamedLevel] \<rparr>))) =
     DateStr (todayStr sampleWorld) \<and>
   dryRun sampleWorld = False \<and>
   exitCode (main sampleParse januaryDates codeUnits (\<lambda>v. False) sampleEngine
     (sampleWorld \<lparr> dailyFile := [datedEntry ''2024-03-05''],
                    topicsFile := [unnamedLevel] \<rparr>)) = 1"
proof -
  have "loadCatalog sampleEngine [unnamedLevel] = Inl TypeError"
    by (rule flatten_unnamedLevel)
  then show ?thesis
    by (simp add: main_def ended_def sampleWorld_def datedEntry_def lessonOn_def)
qed

text \<open>
  C8 (as amended). When neither key is set, no run sends a request or changes the history
  file or the archive. A run that reaches the loop (the catalog loads, the same-day guard
  does not end it, a candidate is picked) exits with code 1 after \<open>maxRetries + 1\<close>
  attempts: one attempt and no delay in a dry run, three attempts with delays of 2000 ms
  and 5000 ms otherwise, the missing key being retried like any other failure.
\<close>

theorem missing_credential:
  assumes "\<not> truthyStr (LLM_API_KEY (environment w))"
    and "\<not> truthyStr (DEEPSEEK_API_KEY (environment w))"
  shows "requestsSent (main jp dp coll nb eng w) = 0 \<and>
         dailyOut (main jp dp coll nb eng w) = dailyFile w \<and>
         archiveOut (main jp dp coll nb eng w) = archiveFiles w \<and>
         (loadCatalog eng (topicsFile w) = Inr cs \<and>
          \<not> (generatedToday w (dailyFile w) \<and> \<not> dryRun w) \<and>
          pickCandidate dp (sortCandidates eng) cs (dailyFile w) = Some c \<longrightarrow>
            exitCode (main jp dp coll nb eng w) = 1 \<and>
            pipelineRuns (main jp dp coll nb eng w) = maxRetries (dryRun w) + 1 \<and>
            delays (main jp dp coll nb eng w) = (if dryRun w then [] else [2000, 5000]))"
proof -
  have key: "\<not> truthyStr (apiKey (environment w))"
    using assms by (simp add: apiKey_def)
  have attempt: "\<And>c n. tryAttempt jp nb w c n = (Inl MissingKey, 0)"
    using key by (rule no_key_attempt)
  have none: "\<And>c. l_requests (retryLoop jp nb w c 0 0) = 0"
    by (rule retryLoop_no_requests) (simp add: attempt)
  have reached: "main jp dp coll nb eng w =
     \<lparr> exitCode = 1, pipelineRuns = maxRetries (dryRun w) + 1,
       requestsSent = l_requests (retryLoop jp nb w c 0 0),
       delays = map backoff [0 ..< maxRetries (dryRun w)],
       dailyOut = dailyFile w, archiveOut = archiveFiles w, printed = None \<rparr>"
    if "loadCatalog eng (topicsFile w) = Inr cs"
      and "\<not> (generatedToday w (dailyFile w) \<and> \<not> dryRun w)"
      and "pickCandidate dp (sortCandidates eng) cs (dailyFile w) = Some c" for cs c
    using that by (rule main_all_fail) (simp add: attempt)
  have frame: "requestsSent (main jp dp coll nb eng w) = 0 \<and>
         dailyOut (main jp dp coll nb eng w) = dailyFile w \<and>
         archiveOut (main jp dp coll nb eng w) = archiveFiles w"
  proof (cases "\<exists>cs c. loadCatalog eng (topicsFile w) = Inr cs \<and>
          \<not> (generatedToday w (dailyFile w) \<and> \<not> dryRun w) \<and>
          pickCandidate dp (sortCandidates eng) cs (dailyFile w) = Some c")
    case True
    then obtain cs c where "loadCatalog eng (topicsFile w) = Inr cs"
      "\<not> (generatedToday w (dailyFile w) \<and> \<not> dryRun w)"
      "pickCandidate dp (sortCandidates eng) cs (dailyFile w) = Some c" by blast
    then show ?thesis using reached none by simp
  next
    case False
    then have "\<exists>code. main jp dp coll nb eng w = ended w code"
      by (cases "loadCatalog eng (topicsFile w)")
         (auto simp: main_def Let_def split: option.splits)
    then show ?thesis by (auto simp: ended_def)
  qed
  have d: "map backoff [0 ..< maxRetries (dryRun w)] = (if dryRun w then [] else [2000, 5000])"
    by (simp add: maxRetries_def backoff_def upt_rec numeral_2_eq_2)
  show ?thesis using frame reached d by auto
qed

lemma sampleWorld_no_key:
  "\<not> truthyStr (LLM_API_KEY (environment sampleWorld))"
  "\<not> truthyStr (DEEPSEEK_API_KEY (environment sampleWorld))"
  by (simp_all add: sampleWorld_def)

lemma sampleWorld_reached:
  "loadCatalog sampleEngine (topicsFile sampleWorld) = Inr [budgeting]"
  "\<not> (generatedToday sampleWorld (dailyFile sampleWorld) \<and> \<not> dryRun sampleWorld)"
  "pickCandidate dp es [budgeting] (dailyFile sampleWorld) = Some budgeting"
  by (simp_all add: sampleWorld_def flatten_oneTopic pick_budgeting generatedToday_def)

theorem missing_credential_witness:
  "LLM_API_KEY (environment sampleWorld) = None \<and>
   DEEPSEEK_API_KEY (environment sampleWorld) = None \<and>
   exitCode (main sampleParse januaryDates codeUnits (\<lambda>v. False) sampleEngine sampleWorld) = 1 \<and>
   requestsSent (main sampleParse januaryDates codeUnits (\<lambda>v. False) sampleEngine sampleWorld) = 0 \<and>
   dailyOut (main sampleParse januaryDates codeUnits (\<lambda>v. False) sampleEngine sampleWorld) = []"
  using missing_credential [OF sampleWorld_no_key, where jp = sampleParse and dp = januaryDates
      and coll = codeUnits and nb = "\<lambda>v. False" and eng = sampleEngine and cs = "[budgeting]"
      and c = budgeting]
    sampleWorld_reached(1,2) sampleWorld_reached(3) [of januaryDates "sortCandidates sampleEngine"]
  by (simp add: sampleWorld_def)

text \<open>
  C8 as stated fails: in a normal run without a key the pipeline is attempted three
  times and both backoff delays are slept.
\<close>

theorem missing_credential_counterexample:
  "LLM_API_KEY (environment sampleWorld) = None \<and>
   DEEPSEEK_API_KEY (environment sampleWorld) = None \<and>
   pipelineRuns (main sampleParse januaryDates codeUnits (\<lambda>v. False) sampleEngine sampleWorld) = 3 \<and>
   delays (main sampleParse januaryDates codeUnits (\<lambda>v. False) sampleEngine sampleWorld) = [2000, 5000]"
proof -
  have key: "\<not> truthyStr (apiKey (environment sampleWorld))"
    by (simp add: apiKey_def sampleWorld_def)
  have fail: "\<forall>n. isl (fst (tryAttempt sampleParse (\<lambda>v. False) sampleWorld budgeting n))"
    by (simp add: no_key_attempt [OF key])
  have "main sampleParse januaryDates codeUnits (\<lambda>v. False) sampleEngine sampleWorld =
     \<lparr> exitCode = 1, pipelineRuns = maxRetries (dryRun sampleWorld) + 1,
       requestsSent = l_requests (retryLoop sampleParse (\<lambda>v. False) sampleWorld budgeting 0 0),
       delays = map backoff [0 ..< maxRetries (dryRun sampleWorld)],
       dailyOut = dailyFile sampleWorld, archiveOut = archiveFiles sampleWorld,
       printed = None \<rparr>"
    by (rule main_all_fail [OF sampleWorld_reached(1) sampleWorld_reached(2)
          sampleWorld_reached(3) fail])
  moreover have "dryRun sampleWorld = False" by (simp add: sampleWorld_def)
  ultimately show ?thesis
    by (simp add: maxRetries_def backoff_def upt_rec numeral_2_eq_2 sampleWorld_def)
qed

lemma dry_run_single_failure:
  assumes "dryRun w" and "isl (fst (tryAttempt jp nb w c 0))"
  shows "l_lesson (retryLoop jp nb w c 0 0) = None \<and>
         l_attempts (retryLoop jp nb w c 0 0) = 1 \<and>
         l_delays (retryLoop jp nb w c 0 0) = []"
proof -
  obtain err k where "tryAttempt jp nb w c 0 = (Inl err, k)"
    using assms(2) by (cases "tryAttempt jp nb w c 0") (auto simp: isl_def)
  then show ?thesis
    using assms(1) by (subst (1 2 3) retryLoop.simps) (simp add: maxRetries_def)
qed

lemma backoff_upto:
  "m \<le> 2 \<Longrightarrow> map backoff [0 ..< m] = take m [2000, 5000]"
proof -
  assume "m \<le> 2"
  then have "m = 0 \<or> m = 1 \<or> m = 2" by arith
  then show ?thesis by (auto simp: backoff_def upt_rec numeral_2_eq_2)
qed

text \<open>
  C10. The retry bound is 0 in a dry run and 2 otherwise, and the delay is 2000 ms before
  the first retry and 5000 ms before a later one. A dry run makes at most one attempt
  and sleeps no delay: when its attempt fails, the run exits with code 1. A normal run
  makes at most three attempts, with delays 2000 ms and 5000 ms between them, and exits
  with code 1 after the third when every attempt fails.
\<close>

theorem dry_run_disables_retries:
  "maxRetries True = 0 \<and> maxRetries False = 2 \<and> backoff 0 = 2000 \<and> backoff (Suc k) = 5000 \<and>
   (dryRun w \<longrightarrow>
      pipelineRuns (main jp dp coll nb eng w) \<le> 1 \<and> delays (main jp dp coll nb eng w) = []) \<and>
   (dryRun w \<and> loadCatalog eng (topicsFile w) = Inr cs \<and>
    pickCandidate dp (sortCandidates eng) cs (dailyFile w) = Some c \<and> isl (fst (tryAttempt jp nb w c 0)) \<longrightarrow>
      exitCode (main jp dp coll nb eng w) = 1 \<and> pipelineRuns (main jp dp coll nb eng w) = 1 \<and>
      delays (main jp dp coll nb eng w) = []) \<and>
   (\<not> dryRun w \<longrightarrow>
      pipelineRuns (main jp dp coll nb eng w) \<le> 3 \<and>
      delays (main jp dp coll nb eng w) =
        take (pipelineRuns (main jp dp coll nb eng w) - 1) [2000, 5000]) \<and>
   (\<not> dryRun w \<and> loadCatalog eng (topicsFile w) = Inr cs \<and> \<not> generatedToday w (dailyFile w) \<and>
    pickCandidate dp (sortCandidates eng) cs (dailyFile w) = Some c \<and>
    (\<forall>n. isl (fst (tryAttempt jp nb w c n))) \<longrightarrow>
      exitCode (main jp dp coll nb eng w) = 1 \<and> pipelineRuns (main jp dp coll nb eng w) = 3 \<and>
      delays (main jp dp coll nb eng w) = [2000, 5000])"
proof -
  obtain m where m: "pipelineRuns (main jp dp coll nb eng w) \<le> Suc m"
    "delays (main jp dp coll nb eng w) =
       map backoff [0 ..< pipelineRuns (main jp dp coll nb eng w) - 1]"
    "m \<le> maxRetries (dryRun w)"
    using main_attempts [of jp dp coll nb eng w] by blast
  have dry: "dryRun w \<longrightarrow>
      pipelineRuns (main jp dp coll nb eng w) \<le> 1 \<and> delays (main jp dp coll nb eng w) = []"
    using m by (auto simp: maxRetries_def)
  have single: "dryRun w \<and> loadCatalog eng (topicsFile w) = Inr cs \<and>
    pickCandidate dp (sortCandidates eng) cs (dailyFile w) = Some c \<and> isl (fst (tryAttempt jp nb w c 0)) \<longrightarrow>
      exitCode (main jp dp coll nb eng w) = 1 \<and> pipelineRuns (main jp dp coll nb eng w) = 1 \<and>
      delays (main jp dp coll nb eng w) = []"
    using dry_run_single_failure [of w jp nb c]
    by (auto simp: main_def Let_def)
  have normal: "\<not> dryRun w \<longrightarrow>
      pipelineRuns (main jp dp coll nb eng w) \<le> 3 \<and>
      delays (main jp dp coll nb eng w) =
        take (pipelineRuns (main jp dp coll nb eng w) - 1) [2000, 5000]"
  proof
    assume "\<not> dryRun w"
    then have "m \<le> 2" using m(3) by (simp add: maxRetries_def)
    then have "pipelineRuns (main jp dp coll nb eng w) - 1 \<le> 2"
      "pipelineRuns (main jp dp coll nb eng w) \<le> 3" using m(1) by auto
    then show "pipelineRuns (main jp dp coll nb eng w) \<le> 3 \<and>
      delays (main jp dp coll nb eng w) =
        take (pipelineRuns (main jp dp coll nb eng w) - 1) [2000, 5000]"
      using m(2) backoff_upto by simp
  qed
  have exhaust: "\<not> dryRun w \<and> loadCatalog eng (topicsFile w) = Inr cs \<and>
    \<not> generatedToday w (dailyFile w) \<and>
    pickCandidate dp (sortCandidates eng) cs (dailyFile w) = Some c \<and>
    (\<forall>n. isl (fst (tryAttempt jp nb w c n))) \<longrightarrow>
      exitCode (main jp dp coll nb eng w) = 1 \<and> pipelineRuns (main jp dp coll nb eng w) = 3 \<and>
      delays (main jp dp coll nb eng w) = [2000, 5000]"
  proof
    assume a: "\<not> dryRun w \<and> loadCatalog eng (topicsFile w) = Inr cs \<and>
      \<not> generatedToday w (dailyFile w) \<and>
      pickCandidate dp (sortCandidates eng) cs (dailyFile w) = Some c \<and>
      (\<forall>n. isl (fst (tryAttempt jp nb w c n)))"
    then have "main jp dp coll nb eng w =
     \<lparr> exitCode = 1, pipelineRuns = maxRetries (dryRun w) + 1,
       requestsSent = l_requests (retryLoop jp nb w c 0 0),
       delays = map backoff [0 ..< maxRetries (dryRun w)],
       dailyOut = dailyFile w, archiveOut = archiveFiles w, printed = None \<rparr>"
      by (intro main_all_fail) auto
    then show "exitCode (main jp dp coll nb eng w) = 1 \<and> pipelineRuns (main jp dp coll nb eng w) = 3 \<and>
      delays (main jp dp coll nb eng w) = [2000, 5000]"
      using a by (simp add: maxRetries_def backoff_def upt_rec numeral_2_eq_2)
  qed
  show ?thesis
    using dry single normal exhaust by (simp add: maxRetries_def backoff_def)
qed

lemma failing_backend:
  "truthyStr (apiKey (environment w)) \<Longrightarrow> backend w n = Inl err \<Longrightarrow>
     tryAttempt jp nb w c n = (Inl err, 1)"
  by (simp add: tryAttempt_def generateLesson_def llmStage_def callLLM_def requestsOf_def)

theorem dry_run_disables_retries_witness:
  "dryRun (sampleWorld \<lparr> dryRun := True, environment := sampleEnv \<rparr>) \<and>
   exitCode (main sampleParse januaryDates codeUnits (\<lambda>v. False) sampleEngine
     (sampleWorld \<lparr> dryRun := True, environment := sampleEnv \<rparr>)) = 1 \<and>
   pipelineRuns (main sampleParse januaryDates codeUnits (\<lambda>v. False) sampleEngine
     (sampleWorld \<lparr> dryRun := True, environment := sampleEnv \<rparr>)) = 1 \<and>
   delays (main sampleParse januaryDates codeUnits (\<lambda>v. False) sampleEngine
     (sampleWorld \<lparr> dryRun := True, environment := sampleEnv \<rparr>)) = [] \<and>
   pipelineRuns (main sampleParse januaryDates codeUnits (\<lambda>v. False) sampleEngine
     (sampleWorld \<lparr> environment := sampleEnv \<rparr>)) = 3 \<and>
   delays (main sampleParse januaryDates codeUnits (\<lambda>v. False) sampleEngine
     (sampleWorld \<lparr> environment := sampleEnv \<rparr>)) = [2000, 5000]"
proof -
  let ?dry = "sampleWorld \<lparr> dryRun := True, environment := sampleEnv \<rparr>"
  let ?normal = "sampleWorld \<lparr> environment := sampleEnv \<rparr>"
  have fd: "\<And>n. tryAttempt sampleParse (\<lambda>v. False) ?dry budgeting n = (Inl ApiError, 1)"
    by (rule failing_backend) (simp_all add: sampleWorld_def sampleEnv_def apiKey_def js_def)
  have fn: "\<And>n. tryAttempt sampleParse (\<lambda>v. False) ?normal budgeting n = (Inl ApiError, 1)"
    by (rule failing_backend) (simp_all add: sampleWorld_def sampleEnv_def apiKey_def js_def)
  have d: "dryRun ?dry \<and> loadCatalog sampleEngine (topicsFile ?dry) = Inr [budgeting] \<and>
      pickCandidate januaryDates (sortCandidates sampleEngine) [budgeting] (dailyFile ?dry) = Some budgeting \<and>
      isl (fst (tryAttempt sampleParse (\<lambda>v. False) ?dry budgeting 0))"
    by (simp add: fd) (simp add: sampleWorld_def flatten_oneTopic pick_budgeting)
  have n: "\<not> dryRun ?normal \<and> loadCatalog sampleEngine (topicsFile ?normal) = Inr [budgeting] \<and>
      \<not> generatedToday ?normal (dailyFile ?normal) \<and>
      pickCandidate januaryDates (sortCandidates sampleEngine) [budgeting] (dailyFile ?normal) = Some budgeting \<and>
      (\<forall>n. isl (fst (tryAttempt sampleParse (\<lambda>v. False) ?normal budgeting n)))"
    by (simp add: fn) (simp add: sampleWorld_def flatten_oneTopic pick_budgeting generatedToday_def)
  show ?thesis
    using dry_run_disables_retries [where w = ?dry and jp = sampleParse and dp = januaryDates
        and coll = codeUnits and nb = "\<lambda>v. False" and eng = sampleEngine
        and cs = "[budgeting]" and c = budgeting] d
      dry_run_disables_retries [where w = ?normal and jp = sampleParse and dp = januaryDates
        and coll = codeUnits and nb = "\<lambda>v. False" and eng = sampleEngine
        and cs = "[budgeting]" and c = budgeting] n
    by blast
qed

text \<open>
  C7 (as amended). The parser first tries the whole reply. When that fails and the reply
  holds a block fenced by \<open>```json\<close> and \<open>```\<close>, it tries the text between the first
  \<open>```json\<close> and the next \<open>```\<close>; a parse failure is surfaced when the reply has no
  such block, or when the text of the block does not parse either. A reply that fails
  to parse fails its stage, a lesson comes only from an attempt all of whose stages
  succeeded, and a run that ends with a failure leaves the history file and the archive
  as they were.
\<close>

theorem fenced_output_parsing:
  "(jp raw = Some v \<longrightarrow> parseJSON jp raw = Inr v) \<and>
   (jp raw = None \<longrightarrow>
      parseJSON jp raw =
        (case fenceInner raw of
           None \<Rightarrow> Inl ParseError
         | Some inner \<Rightarrow> (case jp inner of None \<Rightarrow> Inl ParseError | Some u \<Rightarrow> Inr u))) \<and>
   (fenceInner raw = Some inner \<longrightarrow>
      (\<exists>pre post. raw = pre @ js ''```json'' @ inner @ js ''```'' @ post)) \<and>
   (96 \<notin> set pre \<and> 96 \<notin> set mid \<longrightarrow>
      fenceInner (pre @ js ''```json'' @ mid @ js ''```'' @ post) = Some mid) \<and>
   (truthyStr (apiKey e) \<and> reply k = Inr reply_text \<and> parseJSON jp reply_text = Inl ParseError \<longrightarrow>
      llmStage jp e reply k = Inl ParseError) \<and>
   (a_result (generateLesson jp nb e reply n) = Inr content \<longrightarrow>
      (\<forall>i < length (a_stages (generateLesson jp nb e reply n)).
         \<exists>u. llmStage jp e reply (n + i) = Inr u)) \<and>
   (exitCode (main jp dp coll nb eng w) \<noteq> 0 \<longrightarrow>
      dailyOut (main jp dp coll nb eng w) = dailyFile w \<and>
      archiveOut (main jp dp coll nb eng w) = archiveFiles w)"
proof -
  have "jp raw = None \<longrightarrow>
      parseJSON jp raw =
        (case fenceInner raw of
           None \<Rightarrow> Inl ParseError
         | Some inner \<Rightarrow> (case jp inner of None \<Rightarrow> Inl ParseError | Some u \<Rightarrow> Inr u))"
    by (simp add: parseJSON_def split: option.splits)
  moreover have "jp raw = Some v \<longrightarrow> parseJSON jp raw = Inr v"
    by (simp add: parseJSON_def)
  moreover have "truthyStr (apiKey e) \<and> reply k = Inr reply_text \<and>
      parseJSON jp reply_text = Inl ParseError \<longrightarrow> llmStage jp e reply k = Inl ParseError"
    by (simp add: llmStage_def callLLM_def)
  moreover have "a_result (generateLesson jp nb e reply n) = Inr content \<longrightarrow>
      (\<forall>i < length (a_stages (generateLesson jp nb e reply n)).
         \<exists>u. llmStage jp e reply (n + i) = Inr u)"
    using generateLesson_all_stages by blast
  ultimately show ?thesis
    using fenceInner_sound [of raw inner] fenceInner_exact [of pre mid post]
      main_failure_writes_nothing [of jp dp coll nb eng w]
    by blast
qed

theorem fenced_output_parsing_witness:
  \<open>parseJSON sampleParse (js ''```json{"topic":"draft"}```'') =
     Inr (JObj [(js ''topic'', JStr (js ''draft''))]) \<and>
   fenceInner (js ''```json{"topic":"draft"}```'') = Some (js ''{"topic":"draft"}'') \<and>
   sampleParse (js ''```json{"topic":"draft"}```'') = None\<close>
proof -
  have none: \<open>sampleParse (js ''```json{"topic":"draft"}```'') = None\<close>
    by (simp add: sampleParse_def js_def)
  have tick: \<open>96 \<notin> set [] \<and> 96 \<notin> set (js ''{"topic":"draft"}'')\<close>
    by (simp add: js_def)
  have inner: \<open>sampleParse (js ''{"topic":"draft"}'') = Some (JObj [(js ''topic'', JStr (js ''draft''))])\<close>
    by (simp add: sampleParse_def js_def)
  note facts = fenced_output_parsing [where jp = sampleParse
      and raw = \<open>js ''```json{"topic":"draft"}```''\<close> and pre = "[]"
      and mid = \<open>js ''{"topic":"draft"}''\<close> and post = "[]"]
  have f: \<open>fenceInner ([] @ js ''```json'' @ js ''{"topic":"draft"}'' @ js ''```'' @ []) =
      Some (js ''{"topic":"draft"}'')\<close>
    using facts tick by blast
  then have f': \<open>fenceInner (js ''```json{"topic":"draft"}```'') = Some (js ''{"topic":"draft"}'')\<close>
    by (simp add: js_def)
  have \<open>parseJSON sampleParse (js ''```json{"topic":"draft"}```'') =
        (case fenceInner (js ''```json{"topic":"draft"}```'') of
           None \<Rightarrow> Inl ParseError
         | Some inner \<Rightarrow> (case sampleParse inner of None \<Rightarrow> Inl ParseError | Some u \<Rightarrow> Inr u))\<close>
    using facts none by blast
  then show ?thesis using f' inner none by simp
qed

text \<open>
  C7 as stated fails for a fence without the \<open>json\<close> tag: the reply is wrapped in a
  fenced block whose content parses, and the parser reports a failure.
\<close>

theorem fenced_output_parsing_counterexample:
  \<open>parseJSON sampleParse (js ''```'' @ js ''\<newline>{}\<newline>'' @ js ''```'') = Inl ParseError \<and>
   sampleParse (js ''\<newline>{}\<newline>'') = Some (JObj [])\<close>
  by (simp add: parseJSON_def fenceInner_def sampleParse_def js_def)

end
